theory Spec2Isabelle
  imports Main "HOL-Library.Sublist"
begin

section \<open>Data model\<close>

text \<open>
  Exceptions are values. \<open>Exception name\<close> stands for any subclass of Python's
  \<open>Exception\<close> (the class name is carried along: \<open>''ValueError''\<close>,
  \<open>''TypeError''\<close>, a transport or extraction error of a collaborator);
  \<open>SystemExit\<close> and \<open>KeyboardInterrupt\<close> are the two cancellation signals
  that do not derive from \<open>Exception\<close>.
\<close>

datatype exc = Exception string | SystemExit | KeyboardInterrupt

text \<open>The tuple of the handler \<open>except (Exception, SystemExit, KeyboardInterrupt)\<close>.\<close>

fun rollback_catches :: "exc \<Rightarrow> bool" where
  "rollback_catches (Exception _) = True"
| "rollback_catches SystemExit = True"
| "rollback_catches KeyboardInterrupt = True"

text \<open>
  Paths are strings. The disk is a finite map from paths to nodes: a regular file
  with its bytes, or a directory.
\<close>

type_synonym path = string

datatype node = File string | Dir

type_synonym filesystem = "path \<rightharpoonup> node"

definition path_exists :: "filesystem \<Rightarrow> path \<Rightarrow> bool" where
  "path_exists f p = (f p \<noteq> None)"

definition is_dir :: "filesystem \<Rightarrow> path \<Rightarrow> bool" where
  "is_dir f p = (f p = Some Dir)"

text \<open>
  \<open>pathlib\<close>'s \<open>a / b\<close> on POSIX paths: an absolute right operand replaces the
  left one, an empty one leaves it, otherwise the two are joined by one separator.
  (The left operand is a directory path without a trailing separator.)
\<close>

definition joinpath :: "path \<Rightarrow> string \<Rightarrow> path" where
  "joinpath a b = (if b = [] then a else if hd b = CHR ''/'' then b else a @ ''/'' @ b)"

text \<open>One row of the metadata store (\<open>CachedFile\<close>); times are counted in days.\<close>

record cached_file =
  cf_id :: nat
  url :: string
  local_path :: path
  extraction_path :: "path option"
  created_at :: int
  updated_at :: int

text \<open>
  The calls made to the collaborators and to \<open>Cache.update\<close> are recorded in a
  trace, in the order in which the code makes them.
\<close>

datatype event =
    Download string path
  | Extract path path
  | Update nat
  | OpenFile string string

record state =
  fs :: filesystem
  cache :: "cached_file list"
  next_id :: nat
  trace :: "event list"

definition downloads :: "state \<Rightarrow> nat" where
  "downloads s = length (filter (\<lambda>ev. case ev of Download _ _ \<Rightarrow> True | _ \<Rightarrow> False) (trace s))"

definition extractions :: "state \<Rightarrow> nat" where
  "extractions s = length (filter (\<lambda>ev. case ev of Extract _ _ \<Rightarrow> True | _ \<Rightarrow> False) (trace s))"

definition updates :: "state \<Rightarrow> nat" where
  "updates s = length (filter (\<lambda>ev. case ev of Update _ \<Rightarrow> True | _ \<Rightarrow> False) (trace s))"

section \<open>Collaborators outside the repository's sources\<close>

text \<open>
  What a transport does with one download: it writes the whole resource, or it
  raises, possibly after having written a part of the file.
\<close>

datatype fetch = Fetched string | FetchFailed exc "string option"

text \<open>
  What the archive collaborator does with one extraction: it creates the destination
  directory with the members of the archive (relative path and node), or it raises,
  possibly after having created the directory with some of the members.
\<close>

datatype unpacking = Unpacked "(string \<times> node) list" | UnpackFailed exc "(string \<times> node) list option"

text \<open>
  The functions imported from \<open>minato.util\<close>, \<open>minato.filesystems\<close> and
  \<open>minato.cache\<close> whose bodies are not among the sources are parameters:
  \<^item> \<open>is_local\<close>, \<open>extract_path\<close> (which may reject its argument) and
    \<open>is_archive_file\<close> (which reads the disk) of \<open>minato.util\<close>;
  \<^item> \<open>transport\<close>: the outcome of \<open>minato.filesystems.download\<close> for a URL;
  \<^item> \<open>unpack\<close>: the outcome of \<open>extract_archive_file\<close> for the archive at a path;
  \<^item> \<open>artifact_path\<close>: the local path \<open>Cache.add\<close> derives from a URL;
  \<^item> \<open>expire_days\<close> of the configuration, and the clock \<open>now\<close>.
\<close>

record env =
  is_local :: "string \<Rightarrow> bool"
  extract_path :: "string \<Rightarrow> exc + string"
  is_archive_file :: "filesystem \<Rightarrow> path \<Rightarrow> bool"
  transport :: "filesystem \<Rightarrow> string \<Rightarrow> fetch"
  unpack :: "filesystem \<Rightarrow> path \<Rightarrow> unpacking"
  artifact_path :: "string \<Rightarrow> path"
  expire_days :: "int option"
  now :: int

text \<open>\<open>Minato.download\<close>, a pass-through to \<open>minato.filesystems.download\<close>.\<close>

definition download :: "env \<Rightarrow> string \<Rightarrow> path \<Rightarrow> state \<Rightarrow> (exc + unit) \<times> state" where
  "download env u filename s =
     (let s1 = s\<lparr>trace := trace s @ [Download u filename]\<rparr> in
      case transport env (fs s) u of
        Fetched c \<Rightarrow> (Inr (), s1\<lparr>fs := (fs s)(filename \<mapsto> File c)\<rparr>)
      | FetchFailed e None \<Rightarrow> (Inl e, s1)
      | FetchFailed e (Some c) \<Rightarrow> (Inl e, s1\<lparr>fs := (fs s)(filename \<mapsto> File c)\<rparr>))"

fun write_members :: "path \<Rightarrow> (string \<times> node) list \<Rightarrow> filesystem \<Rightarrow> filesystem" where
  "write_members dst [] f = f"
| "write_members dst ((n, nd) # ms) f = write_members dst ms (f(joinpath dst n \<mapsto> nd))"

definition write_tree :: "path \<Rightarrow> (string \<times> node) list \<Rightarrow> filesystem \<Rightarrow> filesystem" where
  "write_tree dst ms f = write_members dst ms (f(dst \<mapsto> Dir))"

definition extract_archive_file :: "env \<Rightarrow> path \<Rightarrow> path \<Rightarrow> state \<Rightarrow> (exc + unit) \<times> state" where
  "extract_archive_file env src dst s =
     (let s1 = s\<lparr>trace := trace s @ [Extract src dst]\<rparr> in
      case unpack env (fs s) src of
        Unpacked ms \<Rightarrow> (Inr (), s1\<lparr>fs := write_tree dst ms (fs s)\<rparr>)
      | UnpackFailed e None \<Rightarrow> (Inl e, s1)
      | UnpackFailed e (Some ms) \<Rightarrow> (Inl e, s1\<lparr>fs := write_tree dst ms (fs s)\<rparr>))"

text \<open>
  Modelled from the spec: \<open>minato.util.remove_file_or_directory\<close>, "delete the
  artifact file and extraction directory (tolerating already-missing files)". A
  directory goes with everything below it; a file has nothing below it.
\<close>

definition at_or_below :: "path \<Rightarrow> path \<Rightarrow> bool" where
  "at_or_below p q = (q = p \<or> prefix (p @ ''/'') q)"

definition remove_file_or_directory :: "path \<Rightarrow> state \<Rightarrow> state" where
  "remove_file_or_directory p s = s\<lparr>fs := (\<lambda>q. if at_or_below p q then None else fs s q)\<rparr>"

section \<open>The metadata store\<close>

text \<open>
  Modelled from the spec: the class \<open>Cache\<close> of \<open>minato.cache\<close> (section 4.1),
  a table of rows with a unique, monotonically assigned id: \<open>contains\<close>,
  \<open>by_url\<close> and \<open>by_id\<close> (failing with NotFound), \<open>add\<close> (a new persisted
  row with the deterministic local path and no extraction path), \<open>update\<close>
  (persists local path and extraction path of the row with that id and bumps
  \<open>updated_at\<close>), \<open>delete\<close> (removes the row only) and \<open>is_expired\<close> (false
  without an expiration window, otherwise \<open>now - updated_at \<ge> expire_days\<close>).
\<close>

definition contains :: "string \<Rightarrow> state \<Rightarrow> bool" where
  "contains u s = (find (\<lambda>r. url r = u) (cache s) \<noteq> None)"

definition by_url :: "string \<Rightarrow> state \<Rightarrow> exc + cached_file" where
  "by_url u s = (case find (\<lambda>r. url r = u) (cache s) of
                   None \<Rightarrow> Inl (Exception ''NotFound'')
                 | Some r \<Rightarrow> Inr r)"

definition by_id :: "nat \<Rightarrow> state \<Rightarrow> exc + cached_file" where
  "by_id i s = (case find (\<lambda>r. cf_id r = i) (cache s) of
                  None \<Rightarrow> Inl (Exception ''NotFound'')
                | Some r \<Rightarrow> Inr r)"

definition add :: "env \<Rightarrow> string \<Rightarrow> state \<Rightarrow> cached_file \<times> state" where
  "add env u s =
     (let r = \<lparr>cf_id = next_id s, url = u, local_path = artifact_path env u,
               extraction_path = None, created_at = now env, updated_at = now env\<rparr>
      in (r, s\<lparr>cache := cache s @ [r], next_id := Suc (next_id s)\<rparr>))"

definition update :: "env \<Rightarrow> cached_file \<Rightarrow> state \<Rightarrow> state" where
  "update env r s =
     s\<lparr>cache := map (\<lambda>x. if cf_id x = cf_id r
                          then x\<lparr>local_path := local_path r,
                                 extraction_path := extraction_path r,
                                 updated_at := now env\<rparr>
                          else x) (cache s),
       trace := trace s @ [Update (cf_id r)]\<rparr>"

definition delete :: "cached_file \<Rightarrow> state \<Rightarrow> state" where
  "delete r s = s\<lparr>cache := filter (\<lambda>x. cf_id x \<noteq> cf_id r) (cache s)\<rparr>"

definition is_expired :: "env \<Rightarrow> cached_file \<Rightarrow> bool" where
  "is_expired env r = (case expire_days env of
                         None \<Rightarrow> False
                       | Some d \<Rightarrow> d \<le> now env - updated_at r)"

section \<open>The resolver: \<open>Minato.cached_path\<close>\<close>

text \<open>\<open>url in self._cache\<close>, then \<open>by_url\<close> or \<open>add\<close> (lines 87 to 90).\<close>

definition lookup_or_create :: "env \<Rightarrow> string \<Rightarrow> state \<Rightarrow> (exc + cached_file) \<times> state" where
  "lookup_or_create env u s =
     (if contains u s
      then (case by_url u s of Inl e \<Rightarrow> (Inl e, s) | Inr r \<Rightarrow> (Inr r, s))
      else (case add env u s of (r, s1) \<Rightarrow> (Inr r, s1)))"

text \<open>The condition of line 94 to 98.\<close>

definition needs_download :: "env \<Rightarrow> cached_file \<Rightarrow> bool \<Rightarrow> state \<Rightarrow> bool" where
  "needs_download env cached force_download s =
     (\<not> path_exists (fs s) (local_path cached) \<or> is_expired env cached \<or> force_download)"

text \<open>Lines 93 to 100: the result is the flag \<open>downloaded\<close>.\<close>

definition download_stage :: "env \<Rightarrow> cached_file \<Rightarrow> bool \<Rightarrow> state \<Rightarrow> (exc + bool) \<times> state" where
  "download_stage env cached force_download s =
     (if needs_download env cached force_download s
      then (case download env (url cached) (local_path cached) s of
              (Inl e, s1) \<Rightarrow> (Inl e, s1)
            | (Inr _, s1) \<Rightarrow> (Inr True, s1))
      else (Inr False, s))"

text \<open>The condition of line 103 to 107.\<close>

definition needs_extract :: "env \<Rightarrow> cached_file \<Rightarrow> bool \<Rightarrow> bool \<Rightarrow> bool \<Rightarrow> state \<Rightarrow> bool" where
  "needs_extract env cached extract downloaded force_extract s =
     (((extract \<and> extraction_path cached = None)
       \<or> (downloaded \<and> extraction_path cached \<noteq> None)
       \<or> force_extract)
      \<and> is_archive_file env (fs s) (local_path cached))"

text \<open>
  Lines 102 to 116: the result is the flag \<open>extracted\<close>, together with the record
  object, whose \<open>extraction_path\<close> is assigned before anything is deleted or
  extracted. \<open>prepare_destination\<close> is lines 111 and 112.
\<close>

definition prepare_destination :: "path \<Rightarrow> state \<Rightarrow> state" where
  "prepare_destination dst s = (if path_exists (fs s) dst then remove_file_or_directory dst s else s)"

definition extract_stage ::
  "env \<Rightarrow> cached_file \<Rightarrow> bool \<Rightarrow> bool \<Rightarrow> bool \<Rightarrow> state \<Rightarrow> (exc + bool) \<times> cached_file \<times> state" where
  "extract_stage env cached extract downloaded force_extract s =
     (if needs_extract env cached extract downloaded force_extract s
      then (let dst = local_path cached @ ''-extracted'';
                cached1 = cached\<lparr>extraction_path := Some dst\<rparr>;
                s1 = prepare_destination dst s
            in case extract_archive_file env (local_path cached1) dst s1 of
                 (Inl e, s2) \<Rightarrow> (Inl e, cached1, s2)
               | (Inr _, s2) \<Rightarrow> (Inr True, cached1, s2))
      else (Inr False, cached, s))"

text \<open>
  The body of the \<open>try\<close> (lines 93 to 122). \<open>Inr (Some p)\<close> is the \<open>return\<close> of
  line 122, \<open>Inr None\<close> is falling out of the block.
\<close>

definition try_body ::
  "env \<Rightarrow> cached_file \<Rightarrow> bool \<Rightarrow> bool \<Rightarrow> bool \<Rightarrow> state
     \<Rightarrow> (exc + path option) \<times> cached_file \<times> state" where
  "try_body env cached extract force_download force_extract s =
     (case download_stage env cached force_download s of
        (Inl e, s1) \<Rightarrow> (Inl e, cached, s1)
      | (Inr downloaded, s1) \<Rightarrow>
          (case extract_stage env cached extract downloaded force_extract s1 of
             (Inl e, cached1, s2) \<Rightarrow> (Inl e, cached1, s2)
           | (Inr extracted, cached1, s2) \<Rightarrow>
               (let s3 = (if downloaded \<or> extracted then update env cached1 s2 else s2)
                in if (extract \<or> force_extract) \<and> extraction_path cached1 \<noteq> None
                   then (Inr (extraction_path cached1), cached1, s3)
                   else (Inr None, cached1, s3))))"

text \<open>The handler (lines 123 to 127), before the exception is raised again.\<close>

definition rollback :: "cached_file \<Rightarrow> state \<Rightarrow> state" where
  "rollback cached s =
     (let s1 = remove_file_or_directory (local_path cached) s
      in case extraction_path cached of
           None \<Rightarrow> s1
         | Some p \<Rightarrow> remove_file_or_directory p s1)"

text \<open>
  Lines 85 to 129. The scoped lock of \<open>with self._cache\<close> has no effect on a
  single sequential caller and is left out.
\<close>

definition general_pipeline ::
  "env \<Rightarrow> string \<Rightarrow> bool \<Rightarrow> bool \<Rightarrow> bool \<Rightarrow> state \<Rightarrow> (exc + path) \<times> state" where
  "general_pipeline env u extract force_download force_extract s =
     (case lookup_or_create env u s of
        (Inl e, s0) \<Rightarrow> (Inl e, s0)
      | (Inr cached, s0) \<Rightarrow>
          (case try_body env cached extract force_download force_extract s0 of
             (Inl e, cached1, s1) \<Rightarrow>
               (if rollback_catches e then (Inl e, rollback cached1 s1) else (Inl e, s1))
           | (Inr (Some p), cached1, s1) \<Rightarrow> (Inr p, s1)
           | (Inr None, cached1, s1) \<Rightarrow> (Inr (local_path cached1), s1)))"

text \<open>\<open>str.rsplit("!", 1)\<close> on a string that contains the marker.\<close>

definition rsplit_bang :: "string \<Rightarrow> string \<times> string" where
  "rsplit_bang s =
     (rev (tl (dropWhile (\<lambda>c. c \<noteq> CHR ''!'') (rev s))),
      rev (takeWhile (\<lambda>c. c \<noteq> CHR ''!'') (rev s)))"

lemma rsplit_bang_shorter:
  "CHR ''!'' \<in> set s \<Longrightarrow> length (fst (rsplit_bang s)) < length s"
proof -
  assume a: "CHR ''!'' \<in> set s"
  let ?d = "dropWhile (\<lambda>c. c \<noteq> CHR ''!'') (rev s)"
  from a have "?d \<noteq> []" by (simp add: dropWhile_eq_Nil_conv)
  then have "length (tl ?d) < length ?d" by (cases ?d) auto
  moreover have "length ?d \<le> length (rev s)" by (rule length_dropWhile_le)
  ultimately show ?thesis by (simp add: rsplit_bang_def)
qed

function cached_path ::
  "env \<Rightarrow> string \<Rightarrow> bool \<Rightarrow> bool \<Rightarrow> bool \<Rightarrow> state \<Rightarrow> (exc + path) \<times> state" where
  "cached_path env url_or_filename extract force_download force_extract s =
     (if CHR ''!'' \<in> set url_or_filename then
        (case cached_path env (fst (rsplit_bang url_or_filename)) True force_download force_extract s of
           (Inl e, s1) \<Rightarrow> (Inl e, s1)
         | (Inr archive_path, s1) \<Rightarrow>
             if \<not> is_dir (fs s1) archive_path then (Inl (Exception ''ValueError''), s1)
             else (case extract_path env (snd (rsplit_bang url_or_filename)) of
                     Inl e \<Rightarrow> (Inl e, s1)
                   | Inr file_path \<Rightarrow> (Inr (joinpath archive_path file_path), s1)))
      else if is_local env url_or_filename then
        (case extract_path env url_or_filename of
           Inl e \<Rightarrow> (Inl e, s)
         | Inr p \<Rightarrow>
             if \<not> extract \<and> \<not> is_archive_file env (fs s) p then (Inr p, s)
             else general_pipeline env p extract force_download force_extract s)
      else general_pipeline env url_or_filename extract force_download force_extract s)"
  by pat_completeness auto
termination
  by (relation "measure (\<lambda>(env, u, extract, force_download, force_extract, s). length u)")
     (auto simp: rsplit_bang_shorter)

declare cached_path.simps [simp del]

section \<open>\<open>Minato.open\<close> and \<open>Minato.remove\<close>\<close>

text \<open>
  Modelled from the spec: \<open>minato.filesystems.open_file\<close>, which "returns a
  readable or writable byte stream for local or remote targets". The stream is
  represented by the target it was opened on and the mode; the call is recorded.
\<close>

definition open_file :: "string \<Rightarrow> string \<Rightarrow> state \<Rightarrow> (exc + string \<times> string) \<times> state" where
  "open_file target mode s = (Inr (target, mode), s\<lparr>trace := trace s @ [OpenFile target mode]\<rparr>)"

text \<open>\<open>Minato.open\<close> (lines 30 to 52), up to the point where the stream is yielded.\<close>

definition minato_open ::
  "env \<Rightarrow> string \<Rightarrow> string \<Rightarrow> bool \<Rightarrow> bool \<Rightarrow> bool \<Rightarrow> bool \<Rightarrow> state
     \<Rightarrow> (exc + string \<times> string) \<times> state" where
  "minato_open env url_or_filename mode extract use_cache force_download force_extract s =
     (if \<not> (CHR ''a'' \<in> set mode \<and> CHR ''w'' \<in> set mode \<and> CHR ''x'' \<in> set mode
             \<and> CHR ''+'' \<in> set mode)
         \<and> use_cache
      then (case cached_path env url_or_filename extract force_download force_extract s of
              (Inl e, s1) \<Rightarrow> (Inl e, s1)
            | (Inr p, s1) \<Rightarrow> open_file p mode s1)
      else open_file url_or_filename mode s)"

text \<open>\<open>Minato.remove\<close> (lines 142 to 153); an \<open>int\<close> argument is an id.\<close>

definition remove :: "nat + string \<Rightarrow> state \<Rightarrow> (exc + unit) \<times> state" where
  "remove id_or_url s =
     (case (case id_or_url of Inl cache_id \<Rightarrow> by_id cache_id s | Inr u \<Rightarrow> by_url u s) of
        Inl e \<Rightarrow> (Inl e, s)
      | Inr cached \<Rightarrow>
          (let s1 = remove_file_or_directory (local_path cached) s;
               s2 = (case extraction_path cached of
                       None \<Rightarrow> s1
                     | Some p \<Rightarrow> remove_file_or_directory p s1)
           in (Inr (), delete cached s2)))"

section \<open>The package interface: \<open>minato/__init__.py\<close>\<close>

text \<open>
  The attributes that the class \<open>Minato\<close> defines, each with the names of the
  parameters it accepts besides \<open>self\<close> (from the \<open>def\<close> lines of
  \<open>minato.py\<close>; the property \<open>cache\<close> takes none).
\<close>

definition Minato_attributes :: "(string \<times> string list) list" where
  "Minato_attributes =
     [(''__init__'', [''config'']),
      (''cache'', []),
      (''open'', [''url_or_filename'', ''mode'', ''extract'', ''use_cache'',
                  ''force_download'', ''force_extract'']),
      (''cached_path'', [''url_or_filename'', ''extract'', ''force_download'', ''force_extract'']),
      (''download'', [''url'', ''filename'']),
      (''upload'', [''filename'', ''url'']),
      (''remove'', [''id_or_url''])]"

text \<open>Attribute lookup on the class or on an instance of it.\<close>

definition getattr :: "string \<Rightarrow> exc + string list" where
  "getattr name = (case map_of Minato_attributes name of
                     None \<Rightarrow> Inl (Exception ''AttributeError'')
                   | Some params \<Rightarrow> Inr params)"

text \<open>
  Binding the keyword arguments of a call: a keyword that is not a parameter of the
  function is a \<open>TypeError\<close>, raised before the body runs.
\<close>

definition bind_keywords :: "string list \<Rightarrow> string list \<Rightarrow> exc + unit" where
  "bind_keywords params keywords =
     (if list_all (\<lambda>k. k \<in> set params) keywords then Inr () else Inl (Exception ''TypeError''))"

text \<open>
  The module-level functions. \<open>load\<close> stands for \<open>Config.load(cache_root=...)\<close>
  followed by \<open>Minato(config)\<close>, both outside the sources: it yields the
  environment the resolver runs in, or raises. The generator \<open>open\<close> is taken at
  the entry of its \<open>with\<close> block.
\<close>

definition module_open ::
  "(string option \<Rightarrow> exc + env) \<Rightarrow> string \<Rightarrow> string \<Rightarrow> bool \<Rightarrow> bool option \<Rightarrow> bool \<Rightarrow> bool
     \<Rightarrow> bool \<Rightarrow> string option \<Rightarrow> int option \<Rightarrow> state \<Rightarrow> (exc + string \<times> string) \<times> state" where
  "module_open load url_or_filename mode extract auto_update use_cache force_download
       force_extract cache_root expire_days' s =
     (case load cache_root of
        Inl e \<Rightarrow> (Inl e, s)
      | Inr env \<Rightarrow>
          (case getattr ''open'' of
             Inl e \<Rightarrow> (Inl e, s)
           | Inr params \<Rightarrow>
               (case bind_keywords params
                       [''mode'', ''extract'', ''auto_update'', ''use_cache'', ''force_download'',
                        ''force_extract'', ''expire_days''] of
                  Inl e \<Rightarrow> (Inl e, s)
                | Inr _ \<Rightarrow> minato_open env url_or_filename mode extract use_cache
                             force_download force_extract s)))"

definition module_cached_path ::
  "(string option \<Rightarrow> exc + env) \<Rightarrow> string \<Rightarrow> bool \<Rightarrow> bool option \<Rightarrow> bool \<Rightarrow> bool \<Rightarrow> bool
     \<Rightarrow> string option \<Rightarrow> int option \<Rightarrow> state \<Rightarrow> (exc + path) \<times> state" where
  "module_cached_path load url_or_filename extract auto_update force_download force_extract
       retry cache_root expire_days' s =
     (case load cache_root of
        Inl e \<Rightarrow> (Inl e, s)
      | Inr env \<Rightarrow>
          (case getattr ''cached_path'' of
             Inl e \<Rightarrow> (Inl e, s)
           | Inr params \<Rightarrow>
               (case bind_keywords params
                       [''extract'', ''auto_update'', ''force_download'', ''force_extract'',
                        ''expire_days'', ''retry''] of
                  Inl e \<Rightarrow> (Inl e, s)
                | Inr _ \<Rightarrow> cached_path env url_or_filename extract force_download force_extract s)))"

text \<open>
  \<open>remove_cache\<close> and \<open>delete\<close> look up an attribute and call it with one
  positional argument. No attribute of either name exists, so there is no body the
  last branch could run; it returns.
\<close>

definition module_remove_cache ::
  "(string option \<Rightarrow> exc + env) \<Rightarrow> string \<Rightarrow> string option \<Rightarrow> state \<Rightarrow> (exc + unit) \<times> state" where
  "module_remove_cache load url_or_filename cache_root s =
     (case load cache_root of
        Inl e \<Rightarrow> (Inl e, s)
      | Inr env \<Rightarrow>
          (case getattr ''remove_cache'' of
             Inl e \<Rightarrow> (Inl e, s)
           | Inr params \<Rightarrow> (Inr (), s)))"

definition module_delete :: "string \<Rightarrow> state \<Rightarrow> (exc + unit) \<times> state" where
  "module_delete url_or_filename s =
     (case getattr ''delete'' of
        Inl e \<Rightarrow> (Inl e, s)
      | Inr params \<Rightarrow> (Inr (), s))"

section \<open>Failures inside the pipeline\<close>

text \<open>
  The two places where a collaborator can raise inside the \<open>try\<close>: the download
  of line 99 and the extraction of line 113. An interrupt that arrives during one of
  these blocking calls surfaces as the exception of that call.
\<close>

definition download_raises :: "env \<Rightarrow> cached_file \<Rightarrow> bool \<Rightarrow> state \<Rightarrow> exc \<Rightarrow> bool" where
  "download_raises env cached force_download s e =
     (needs_download env cached force_download s \<and>
      (case transport env (fs s) (url cached) of
         Fetched _ \<Rightarrow> False
       | FetchFailed e' _ \<Rightarrow> e' = e))"

definition extraction_raises ::
  "env \<Rightarrow> cached_file \<Rightarrow> bool \<Rightarrow> bool \<Rightarrow> bool \<Rightarrow> state \<Rightarrow> exc \<Rightarrow> bool" where
  "extraction_raises env cached extract force_download force_extract s e =
     (case download_stage env cached force_download s of
        (Inl _, _) \<Rightarrow> False
      | (Inr downloaded, s1) \<Rightarrow>
          needs_extract env cached extract downloaded force_extract s1 \<and>
          (case unpack env (fs (prepare_destination (local_path cached @ ''-extracted'') s1))
                  (local_path cached) of
             Unpacked _ \<Rightarrow> False
           | UnpackFailed e' _ \<Rightarrow> e' = e))"

section \<open>Notions used in the statements\<close>

text \<open>
  For an identifier without the marker: whether lines 80 to 83 return it as a plain
  local path, and otherwise the key under which the general pipeline resolves it.
\<close>

definition passes_through :: "env \<Rightarrow> string \<Rightarrow> bool \<Rightarrow> state \<Rightarrow> bool" where
  "passes_through env u extract s =
     (is_local env u \<and>
      (case extract_path env u of
         Inl _ \<Rightarrow> False
       | Inr p \<Rightarrow> \<not> extract \<and> \<not> is_archive_file env (fs s) p))"

definition pipeline_url :: "env \<Rightarrow> string \<Rightarrow> string" where
  "pipeline_url env u =
     (if is_local env u then (case extract_path env u of Inl _ \<Rightarrow> u | Inr p \<Rightarrow> p) else u)"

text \<open>The extraction directory that a record names, if it names one, is on disk.\<close>

definition extraction_on_disk :: "state \<Rightarrow> cached_file \<Rightarrow> bool" where
  "extraction_on_disk s r =
     (case extraction_path r of None \<Rightarrow> True | Some q \<Rightarrow> path_exists (fs s) q)"

definition on_disk :: "state \<Rightarrow> cached_file \<Rightarrow> bool" where
  "on_disk s r = (path_exists (fs s) (local_path r) \<and> extraction_on_disk s r)"

definition records_on_disk :: "state \<Rightarrow> bool" where
  "records_on_disk s = list_all (on_disk s) (cache s)"

text \<open>
  The reference that the recursion of \<open>cached_path\<close> reaches for a nested
  identifier: the part before the first marker.
\<close>

function root_ref :: "string \<Rightarrow> string" where
  "root_ref u = (if CHR ''!'' \<in> set u then root_ref (fst (rsplit_bang u)) else u)"
  by pat_completeness auto
termination
  by (relation "measure length") (auto simp: rsplit_bang_shorter)

declare root_ref.simps [simp del]

text \<open>The row stored under a key, if there is one, is not expired.\<close>

definition unexpired :: "env \<Rightarrow> string \<Rightarrow> state \<Rightarrow> bool" where
  "unexpired env k s = (case by_url k s of Inl _ \<Rightarrow> True | Inr row \<Rightarrow> \<not> is_expired env row)"

section \<open>Concrete worlds\<close>

text \<open>
  A small world for evaluating the model: \<open>h:a.zip\<close> is a remote archive with one
  member, \<open>h:r.txt\<close> a remote text file, every other URL fails in the transport;
  archives are recognized by the signature \<open>PK\<close>; paths starting with a separator
  are local. \<open>fresh\<close> is the empty store on an empty disk.
\<close>

definition world :: env where
  "world =
     \<lparr>is_local = (\<lambda>u. take 1 u = ''/''),
      extract_path = (\<lambda>u. Inr u),
      is_archive_file = (\<lambda>f p. case f p of Some (File c) \<Rightarrow> take 2 c = ''PK'' | _ \<Rightarrow> False),
      transport = (\<lambda>f u. if u = ''h:a.zip'' then Fetched ''PK1''
                          else if u = ''h:r.txt'' then Fetched ''txt''
                          else FetchFailed (Exception ''TransportError'') None),
      unpack = (\<lambda>f p. case f p of
                         Some (File c) \<Rightarrow>
                           if take 2 c = ''PK'' then Unpacked [(''a.txt'', File ''a'')]
                           else UnpackFailed (Exception ''ExtractionError'') None
                       | _ \<Rightarrow> UnpackFailed (Exception ''ExtractionError'') None),
      artifact_path = (\<lambda>u. ''/c/'' @ u),
      expire_days = None,
      now = 0\<rparr>"

definition fresh :: state where
  "fresh = \<lparr>fs = Map.empty, cache = [], next_id = 1, trace = []\<rparr>"

text \<open>A transport that is interrupted after writing two bytes.\<close>

definition interrupted :: env where
  "interrupted = world\<lparr>transport := (\<lambda>f u. FetchFailed KeyboardInterrupt (Some ''PK''))\<rparr>"

definition first_row :: cached_file where
  "first_row = \<lparr>cf_id = 1, url = ''h:a.zip'', local_path = ''/c/h:a.zip'',
                 extraction_path = None, created_at = 0, updated_at = 0\<rparr>"

text \<open>The row that \<open>Cache.add\<close> creates for \<open>h:r.txt\<close> in the fresh store.\<close>

definition text_row :: cached_file where
  "text_row = \<lparr>cf_id = 1, url = ''h:r.txt'', local_path = ''/c/h:r.txt'',
                extraction_path = None, created_at = 0, updated_at = 0\<rparr>"

text \<open>An extractor that fails on every archive after creating the empty directory.\<close>

definition broken :: env where
  "broken = world\<lparr>unpack := (\<lambda>f p. UnpackFailed (Exception ''ExtractionError'') (Some []))\<rparr>"

text \<open>The store after \<open>h:a.zip\<close> has been downloaded and not extracted.\<close>

definition zip_cached :: state where
  "zip_cached = \<lparr>fs = [''/c/h:a.zip'' \<mapsto> File ''PK1''], cache = [first_row], next_id = 2,
                  trace = [Download ''h:a.zip'' ''/c/h:a.zip'', Update 1]\<rparr>"

text \<open>The row of \<open>h:a.zip\<close> after it has been downloaded and extracted.\<close>

definition extracted_row :: cached_file where
  "extracted_row = \<lparr>cf_id = 1, url = ''h:a.zip'', local_path = ''/c/h:a.zip'',
                     extraction_path = Some ''/c/h:a.zip-extracted'', created_at = 0,
                     updated_at = 0\<rparr>"

text \<open>The remote \<open>h:a.zip\<close> has been replaced by a text file.\<close>

definition retexted :: env where
  "retexted = world\<lparr>transport := (\<lambda>f u. Fetched ''txt'')\<rparr>"

text \<open>The world with an expiration window of seven days.\<close>

definition weekly :: env where
  "weekly = world\<lparr>expire_days := Some 7\<rparr>"

section \<open>Basic facts about the file operations\<close>

lemma remove_fs_at: "fs (remove_file_or_directory p s) p = None"
  by (simp add: remove_file_or_directory_def at_or_below_def)

lemma remove_not_exists: "\<not> path_exists (fs (remove_file_or_directory p s)) p"
  by (simp add: path_exists_def remove_fs_at)

lemma remove_exists_mono:
  "path_exists (fs (remove_file_or_directory p s)) q \<Longrightarrow> path_exists (fs s) q"
  by (simp add: path_exists_def remove_file_or_directory_def split: if_splits)

lemma remove_keeps:
  "cache (remove_file_or_directory p s) = cache s"
  "trace (remove_file_or_directory p s) = trace s"
  "next_id (remove_file_or_directory p s) = next_id s"
  by (simp_all add: remove_file_or_directory_def)

lemma rollback_keeps:
  "cache (rollback c s) = cache s"
  "trace (rollback c s) = trace s"
  "next_id (rollback c s) = next_id s"
  by (simp_all add: rollback_def Let_def remove_keeps split: option.splits)

lemma rollback_local_gone: "\<not> path_exists (fs (rollback c s)) (local_path c)"
proof (cases "extraction_path c")
  case None
  then show ?thesis by (simp add: rollback_def Let_def remove_not_exists)
next
  case (Some p)
  have "\<not> path_exists (fs (remove_file_or_directory p (remove_file_or_directory (local_path c) s))) (local_path c)"
    using remove_exists_mono remove_not_exists by blast
  with Some show ?thesis by (simp add: rollback_def Let_def)
qed

lemma rollback_extraction_gone:
  "extraction_path c = Some p \<Longrightarrow> \<not> path_exists (fs (rollback c s)) p"
  by (simp add: rollback_def Let_def remove_not_exists)

lemma rollback_exists_mono:
  "path_exists (fs (rollback c s)) q \<Longrightarrow> path_exists (fs s) q"
  by (cases "extraction_path c")
     (auto simp: rollback_def Let_def dest!: remove_exists_mono)

lemma download_stage_fails_iff:
  "download_stage env c fd s = (Inl e, s1) \<longleftrightarrow>
     needs_download env c fd s \<and>
     (\<exists>part. transport env (fs s) (url c) = FetchFailed e part) \<and>
     s1 = snd (download env (url c) (local_path c) s)"
  by (auto simp: download_stage_def download_def Let_def split: fetch.splits option.splits prod.splits sum.splits)

lemma extract_stage_fails_iff:
  "extract_stage env c ex d fe s = (Inl e, c1, s2) \<longleftrightarrow>
     needs_extract env c ex d fe s \<and>
     (\<exists>part. unpack env (fs (prepare_destination (local_path c @ ''-extracted'') s)) (local_path c) = UnpackFailed e part) \<and>
     c1 = c\<lparr>extraction_path := Some (local_path c @ ''-extracted'')\<rparr> \<and>
     s2 = snd (extract_archive_file env (local_path c) (local_path c @ ''-extracted'') (prepare_destination (local_path c @ ''-extracted'') s))"
  by (auto simp: extract_stage_def extract_archive_file_def Let_def split: unpacking.splits option.splits prod.splits sum.splits)

lemma lookup_or_create_ok: "\<exists>c s0. lookup_or_create env u s = (Inr c, s0)"
  by (auto simp: lookup_or_create_def contains_def by_url_def add_def Let_def split: option.splits)

lemma download_keeps:
  "cache (snd (download env u f s)) = cache s"
  "next_id (snd (download env u f s)) = next_id s"
  "trace (snd (download env u f s)) = trace s @ [Download u f]"
  by (simp_all add: download_def Let_def split: fetch.splits option.splits)

lemma extract_archive_file_keeps:
  "cache (snd (extract_archive_file env a d s)) = cache s"
  "next_id (snd (extract_archive_file env a d s)) = next_id s"
  "trace (snd (extract_archive_file env a d s)) = trace s @ [Extract a d]"
  by (simp_all add: extract_archive_file_def Let_def split: unpacking.splits option.splits)

lemma prepare_destination_keeps:
  "cache (prepare_destination d s) = cache s"
  "next_id (prepare_destination d s) = next_id s"
  "trace (prepare_destination d s) = trace s"
  by (simp_all add: prepare_destination_def remove_keeps)

lemma download_stage_keeps:
  "download_stage env c fd s = (r, s1) \<Longrightarrow> cache s1 = cache s \<and> next_id s1 = next_id s"
  by (auto simp: download_stage_def download_def Let_def
           split: if_splits fetch.splits option.splits)

lemma download_raises_stage:
  "download_raises env c fd s e \<Longrightarrow>
     download_stage env c fd s = (Inl e, snd (download env (url c) (local_path c) s))"
  by (auto simp: download_raises_def download_stage_def download_def Let_def
           split: fetch.splits option.splits)

lemma download_raises_try_body:
  "download_raises env c fd s e \<Longrightarrow>
     try_body env c ex fd fe s = (Inl e, c, snd (download env (url c) (local_path c) s))"
  by (simp add: try_body_def download_raises_stage)

lemma extraction_raises_try_body:
  assumes "extraction_raises env c ex fd fe s e"
  shows "\<exists>s2. try_body env c ex fd fe s =
            (Inl e, c\<lparr>extraction_path := Some (local_path c @ ''-extracted'')\<rparr>, s2)
          \<and> cache s2 = cache s"
proof -
  obtain r s1 where ds: "download_stage env c fd s = (r, s1)" by (cases "download_stage env c fd s")
  with assms obtain d where r: "r = Inr d"
    by (cases r) (auto simp: extraction_raises_def)
  from assms ds r have ne: "needs_extract env c ex d fe s1"
    and up: "\<exists>part. unpack env (fs (prepare_destination (local_path c @ ''-extracted'') s1)) (local_path c) = UnpackFailed e part"
    by (auto simp: extraction_raises_def split: unpacking.splits)
  let ?dst = "local_path c @ ''-extracted''"
  let ?s2 = "snd (extract_archive_file env (local_path c) ?dst (prepare_destination ?dst s1))"
  from ne up have "extract_stage env c ex d fe s1 = (Inl e, c\<lparr>extraction_path := Some ?dst\<rparr>, ?s2)"
    by (simp add: extract_stage_fails_iff)
  with ds r have "try_body env c ex fd fe s = (Inl e, c\<lparr>extraction_path := Some ?dst\<rparr>, ?s2)"
    by (simp add: try_body_def)
  moreover have "cache ?s2 = cache s"
    using download_stage_keeps[OF ds] by (simp add: extract_archive_file_keeps prepare_destination_keeps)
  ultimately show ?thesis by blast
qed

lemma write_members_mono:
  "path_exists f q \<Longrightarrow> path_exists (write_members dst ms f) q"
  by (induction dst ms f rule: write_members.induct) (auto simp: path_exists_def)

lemma write_tree_mono: "path_exists f q \<Longrightarrow> path_exists (write_tree dst ms f) q"
  unfolding write_tree_def by (rule write_members_mono) (simp add: path_exists_def)

lemma write_tree_dst: "path_exists (write_tree dst ms f) dst"
  unfolding write_tree_def by (rule write_members_mono) (simp add: path_exists_def)

lemma not_below_extracted: "\<not> at_or_below (p @ ''-extracted'') p"
proof -
  have "\<not> prefix ((p @ ''-extracted'') @ ''/'') p"
  proof
    assume "prefix ((p @ ''-extracted'') @ ''/'') p"
    then have "length ((p @ ''-extracted'') @ ''/'') \<le> length p" by (rule prefix_length_le)
    then show False by simp
  qed
  then show ?thesis by (simp add: at_or_below_def)
qed

lemma prepare_destination_other:
  "\<not> at_or_below dst q \<Longrightarrow> fs (prepare_destination dst s) q = fs s q"
  by (simp add: prepare_destination_def remove_file_or_directory_def)

lemma prepare_destination_clears:
  "at_or_below dst q \<Longrightarrow> path_exists (fs s) dst \<Longrightarrow> fs (prepare_destination dst s) q = None"
  by (simp add: prepare_destination_def remove_file_or_directory_def)

lemma prepare_destination_dst: "fs (prepare_destination dst s) dst = None"
  by (simp add: prepare_destination_def remove_file_or_directory_def at_or_below_def path_exists_def)

lemma download_stage_trace:
  "trace (snd (download_stage env c fd s)) =
     trace s @ (if needs_download env c fd s then [Download (url c) (local_path c)] else [])"
  by (simp add: download_stage_def download_def Let_def split: fetch.splits option.splits)

lemma download_stage_ok:
  assumes "download_stage env c fd s = (Inr d, s1)"
  shows "d = needs_download env c fd s"
    and "cache s1 = cache s"
    and "next_id s1 = next_id s"
    and "d \<Longrightarrow> path_exists (fs s1) (local_path c)"
    and "\<not> d \<Longrightarrow> s1 = s"
    and "path_exists (fs s) q \<Longrightarrow> path_exists (fs s1) q"
  using assms
  by (auto simp: download_stage_def download_def Let_def path_exists_def
           split: if_splits fetch.splits option.splits)

lemma extract_stage_trace:
  "trace (snd (snd (extract_stage env c ex d fe s))) =
     trace s @ (if needs_extract env c ex d fe s
                then [Extract (local_path c) (local_path c @ ''-extracted'')] else [])"
  by (simp add: extract_stage_def extract_archive_file_def Let_def prepare_destination_keeps
           split: unpacking.splits option.splits)

lemma extract_stage_cache:
  "cache (snd (snd (extract_stage env c ex d fe s))) = cache s"
  by (simp add: extract_stage_def extract_archive_file_def Let_def prepare_destination_keeps
           split: unpacking.splits option.splits)

lemma extract_stage_skipped:
  "\<not> needs_extract env c ex d fe s \<Longrightarrow> extract_stage env c ex d fe s = (Inr False, c, s)"
  by (simp add: extract_stage_def)

lemma extract_stage_ran:
  assumes "needs_extract env c ex d fe s"
      and "extract_stage env c ex d fe s = (Inr x, c1, s2)"
  shows "x" and "c1 = c\<lparr>extraction_path := Some (local_path c @ ''-extracted'')\<rparr>"
    and "\<exists>ms. unpack env (fs (prepare_destination (local_path c @ ''-extracted'') s)) (local_path c) = Unpacked ms
            \<and> fs s2 = write_tree (local_path c @ ''-extracted'') ms
                        (fs (prepare_destination (local_path c @ ''-extracted'') s))"
  using assms
  by (auto simp: extract_stage_def extract_archive_file_def Let_def
           split: unpacking.splits option.splits)

lemma extract_stage_ok:
  assumes "extract_stage env c ex d fe s = (Inr x, c1, s2)"
  shows "x = needs_extract env c ex d fe s"
    and "local_path c1 = local_path c" and "url c1 = url c" and "cf_id c1 = cf_id c"
    and "x \<Longrightarrow> extraction_path c1 = Some (local_path c @ ''-extracted'')"
    and "x \<Longrightarrow> path_exists (fs s2) (local_path c @ ''-extracted'')"
    and "\<not> x \<Longrightarrow> c1 = c \<and> s2 = s"
    and "path_exists (fs s) (local_path c) \<Longrightarrow> path_exists (fs s2) (local_path c)"
proof -
  show x: "x = needs_extract env c ex d fe s"
    using assms extract_stage_ran(1)[of env c ex d fe s x c1 s2]
    by (cases "needs_extract env c ex d fe s") (simp_all add: extract_stage_skipped)
  show "local_path c1 = local_path c" "url c1 = url c" "cf_id c1 = cf_id c"
    using assms extract_stage_ran(2)[of env c ex d fe s x c1 s2]
    by (cases "needs_extract env c ex d fe s"; simp add: extract_stage_skipped)+
  show "x \<Longrightarrow> extraction_path c1 = Some (local_path c @ ''-extracted'')"
    using assms x extract_stage_ran(2)[of env c ex d fe s x c1 s2] by simp
  show "x \<Longrightarrow> path_exists (fs s2) (local_path c @ ''-extracted'')"
    using assms x extract_stage_ran(3)[of env c ex d fe s x c1 s2]
    by (auto simp: write_tree_dst)
  show "\<not> x \<Longrightarrow> c1 = c \<and> s2 = s"
    using assms x by (simp add: extract_stage_skipped)
  show "path_exists (fs s) (local_path c) \<Longrightarrow> path_exists (fs s2) (local_path c)"
  proof (cases "needs_extract env c ex d fe s")
    case False
    with assms show "path_exists (fs s) (local_path c) \<Longrightarrow> ?thesis"
      by (simp add: extract_stage_skipped)
  next
    case True
    assume pe: "path_exists (fs s) (local_path c)"
    from extract_stage_ran(3)[OF True assms] obtain ms where
      f: "fs s2 = write_tree (local_path c @ ''-extracted'') ms
                    (fs (prepare_destination (local_path c @ ''-extracted'') s))" by (elim exE conjE)
    have "path_exists (fs (prepare_destination (local_path c @ ''-extracted'') s)) (local_path c)"
      using pe by (simp add: path_exists_def prepare_destination_other not_below_extracted)
    then show ?thesis by (simp add: f write_tree_mono)
  qed
qed

lemma rollback_catches_all: "rollback_catches e"
  by (cases e) simp_all

lemma find_snoc_new:
  "find P xs = None \<Longrightarrow> P r \<Longrightarrow> find P (xs @ [r]) = Some r"
  by (induction xs) (auto split: if_splits)

lemma find_Some_holds: "find P xs = Some x \<Longrightarrow> P x"
  by (induction xs) (auto split: if_splits)

lemma lookup_or_create_props:
  assumes "lookup_or_create env u s = (Inr c, s0)"
  shows "fs s0 = fs s" and "trace s0 = trace s"
    and "find (\<lambda>r. url r = u) (cache s0) = Some c"
    and "url c = u"
proof -
  show "fs s0 = fs s" "trace s0 = trace s"
    using assms
    by (auto simp: lookup_or_create_def by_url_def add_def Let_def split: if_splits option.splits)
  show f: "find (\<lambda>r. url r = u) (cache s0) = Some c"
  proof (cases "contains u s")
    case True
    with assms show ?thesis
      by (auto simp: lookup_or_create_def by_url_def split: option.splits)
  next
    case False
    then have n: "find (\<lambda>r. url r = u) (cache s) = None" by (simp add: contains_def)
    from False assms have c: "c = \<lparr>cf_id = next_id s, url = u, local_path = artifact_path env u,
               extraction_path = None, created_at = now env, updated_at = now env\<rparr>"
      and s0: "cache s0 = cache s @ [c]"
      by (auto simp: lookup_or_create_def add_def Let_def)
    from c have "url c = u" by simp
    with n show ?thesis unfolding s0 by (intro find_snoc_new) simp_all
  qed
  from find_Some_holds[OF f] show "url c = u" .
qed

lemma lookup_or_create_known:
  "contains u s \<Longrightarrow> lookup_or_create env u s = (Inr c, s0) \<Longrightarrow> s0 = s \<and> by_url u s = Inr c"
  by (auto simp: lookup_or_create_def split: sum.splits)

lemma lookup_or_create_found:
  "find (\<lambda>r. url r = u) (cache s) = Some c \<Longrightarrow> lookup_or_create env u s = (Inr c, s)"
  by (simp add: lookup_or_create_def contains_def by_url_def)

lemma find_update_row:
  assumes "find (\<lambda>r. url r = u) xs = Some c" and "i = cf_id c"
  shows "find (\<lambda>r. url r = u)
           (map (\<lambda>x. if cf_id x = i
                      then x\<lparr>local_path := a, extraction_path := b, updated_at := t\<rparr>
                      else x) xs)
         = Some (c\<lparr>local_path := a, extraction_path := b, updated_at := t\<rparr>)"
  using assms by (induction xs) (auto split: if_splits)

lemma by_url_update:
  assumes "find (\<lambda>r. url r = u) (cache s) = Some c" and "cf_id c1 = cf_id c"
  shows "by_url u (update env c1 s)
         = Inr (c\<lparr>local_path := local_path c1, extraction_path := extraction_path c1,
                   updated_at := now env\<rparr>)"
  using find_update_row[OF assms(1), where i = "cf_id c1" and a = "local_path c1"
          and b = "extraction_path c1" and t = "now env"] assms(2)
  by (simp add: by_url_def update_def)

lemma update_keeps:
  "fs (update env c s) = fs s" "next_id (update env c s) = next_id s"
  "trace (update env c s) = trace s @ [Update (cf_id c)]"
  by (simp_all add: update_def)

lemma try_body_download_fails:
  "download_stage env c fd s = (Inl e, s1) \<Longrightarrow> try_body env c ex fd fe s = (Inl e, c, s1)"
  by (simp add: try_body_def)

lemma try_body_extract_fails:
  "download_stage env c fd s = (Inr d, s1) \<Longrightarrow> extract_stage env c ex d fe s1 = (Inl e, c1, s2)
   \<Longrightarrow> try_body env c ex fd fe s = (Inl e, c1, s2)"
  by (simp add: try_body_def)

lemma try_body_succeeds:
  "download_stage env c fd s = (Inr d, s1) \<Longrightarrow> extract_stage env c ex d fe s1 = (Inr x, c1, s2)
   \<Longrightarrow> try_body env c ex fd fe s =
        (Inr (if (ex \<or> fe) \<and> extraction_path c1 \<noteq> None then extraction_path c1 else None),
         c1, if d \<or> x then update env c1 s2 else s2)"
  by (simp add: try_body_def Let_def)

lemma try_body_cases:
  obtains (download_failed) e s1 where "download_stage env c fd s = (Inl e, s1)"
      and "try_body env c ex fd fe s = (Inl e, c, s1)"
  | (extract_failed) d s1 e c1 s2 where "download_stage env c fd s = (Inr d, s1)"
      and "extract_stage env c ex d fe s1 = (Inl e, c1, s2)"
      and "try_body env c ex fd fe s = (Inl e, c1, s2)"
  | (succeeded) d s1 x c1 s2 where "download_stage env c fd s = (Inr d, s1)"
      and "extract_stage env c ex d fe s1 = (Inr x, c1, s2)"
      and "try_body env c ex fd fe s =
             (Inr (if (ex \<or> fe) \<and> extraction_path c1 \<noteq> None then extraction_path c1 else None),
              c1, if d \<or> x then update env c1 s2 else s2)"
proof -
  obtain r s1 where ds: "download_stage env c fd s = (r, s1)" by (cases "download_stage env c fd s")
  show thesis
  proof (cases r)
    case (Inl e)
    with ds download_failed try_body_download_fails show ?thesis by blast
  next
    case (Inr d)
    obtain r2 c1 s2 where es: "extract_stage env c ex d fe s1 = (r2, c1, s2)"
      by (cases "extract_stage env c ex d fe s1")
    show ?thesis
    proof (cases r2)
      case (Inl e)
      with ds es Inr extract_failed try_body_extract_fails show ?thesis by blast
    next
      case r2: (Inr x)
      with ds es Inr succeeded try_body_succeeds show ?thesis by blast
    qed
  qed
qed

lemma general_pipeline_raises:
  "lookup_or_create env u s = (Inr c, s0) \<Longrightarrow> try_body env c ex fd fe s0 = (Inl e, c1, s1)
   \<Longrightarrow> general_pipeline env u ex fd fe s = (Inl e, rollback c1 s1)"
  by (simp add: general_pipeline_def rollback_catches_all)

lemma general_pipeline_returns:
  "lookup_or_create env u s = (Inr c, s0) \<Longrightarrow> try_body env c ex fd fe s0 = (Inr ret, c1, s1)
   \<Longrightarrow> general_pipeline env u ex fd fe s =
         (Inr (case ret of None \<Rightarrow> local_path c1 | Some p \<Rightarrow> p), s1)"
  by (cases ret) (simp_all add: general_pipeline_def)

lemma count_events:
  assumes "trace s' = trace s @ t"
  shows "downloads s' = downloads s + length (filter (\<lambda>ev. case ev of Download _ _ \<Rightarrow> True | _ \<Rightarrow> False) t)"
    and "extractions s' = extractions s + length (filter (\<lambda>ev. case ev of Extract _ _ \<Rightarrow> True | _ \<Rightarrow> False) t)"
    and "updates s' = updates s + length (filter (\<lambda>ev. case ev of Update _ \<Rightarrow> True | _ \<Rightarrow> False) t)"
  using assms by (simp_all add: downloads_def extractions_def updates_def)

lemma count_same:
  assumes "trace s' = trace s"
  shows "downloads s' = downloads s" and "extractions s' = extractions s" and "updates s' = updates s"
  using assms by (simp_all add: downloads_def extractions_def updates_def)

lemma try_body_trace:
  "\<exists>t. trace (snd (snd (try_body env c ex fd fe s))) =
         trace s @ (if needs_download env c fd s then [Download (url c) (local_path c)] else []) @ t
       \<and> (\<forall>ev\<in>set t. case ev of Download _ _ \<Rightarrow> False | _ \<Rightarrow> True)"
proof (cases rule: try_body_cases[of env c fd s ex fe])
  case (download_failed e s1)
  from download_stage_trace[of env c fd s] download_failed(1)
  have "trace s1 = trace s @ (if needs_download env c fd s then [Download (url c) (local_path c)] else [])"
    by simp
  with download_failed(2) show ?thesis by simp
next
  case (extract_failed d s1 e c1 s2)
  from download_stage_trace[of env c fd s] extract_failed(1)
  have 1: "trace s1 = trace s @ (if needs_download env c fd s then [Download (url c) (local_path c)] else [])"
    by simp
  from extract_stage_trace[of env c ex d fe s1] extract_failed(2)
  have 2: "trace s2 = trace s1 @ (if needs_extract env c ex d fe s1
                then [Extract (local_path c) (local_path c @ ''-extracted'')] else [])" by simp
  show ?thesis unfolding extract_failed(3) by (simp add: 1 2)
next
  case (succeeded d s1 x c1 s2)
  from download_stage_trace[of env c fd s] succeeded(1)
  have 1: "trace s1 = trace s @ (if needs_download env c fd s then [Download (url c) (local_path c)] else [])"
    by simp
  from extract_stage_trace[of env c ex d fe s1] succeeded(2)
  have 2: "trace s2 = trace s1 @ (if needs_extract env c ex d fe s1
                then [Extract (local_path c) (local_path c @ ''-extracted'')] else [])" by simp
  show ?thesis unfolding succeeded(3) by (simp add: 1 2 update_keeps)
qed

lemma try_body_downloads:
  "downloads (snd (snd (try_body env c ex fd fe s))) =
     downloads s + (if needs_download env c fd s then 1 else 0)"
proof -
  from try_body_trace[of env c ex fd fe s] obtain t where
    t: "trace (snd (snd (try_body env c ex fd fe s))) =
         trace s @ (if needs_download env c fd s then [Download (url c) (local_path c)] else []) @ t"
    and n: "\<forall>ev\<in>set t. case ev of Download _ _ \<Rightarrow> False | _ \<Rightarrow> True" by (elim exE conjE)
  have "filter (\<lambda>ev. case ev of Download _ _ \<Rightarrow> True | _ \<Rightarrow> False) t = []"
    using n by (auto simp: filter_empty_conv split: event.splits)
  then show ?thesis using count_events(1)[OF t] by simp
qed

lemma general_pipeline_downloads:
  assumes lk: "lookup_or_create env u s = (Inr c, s0)"
  shows "downloads (snd (general_pipeline env u ex fd fe s)) =
           downloads s + (if needs_download env c fd s0 then 1 else 0)"
proof -
  obtain r c1 s1 where tb: "try_body env c ex fd fe s0 = (r, c1, s1)"
    by (cases "try_body env c ex fd fe s0")
  have d0: "downloads s0 = downloads s"
    by (rule count_same) (rule lookup_or_create_props(2)[OF lk])
  have d1: "downloads s1 = downloads s0 + (if needs_download env c fd s0 then 1 else 0)"
    using try_body_downloads[of env c ex fd fe s0] tb by simp
  show ?thesis
  proof (cases r)
    case (Inl e)
    with general_pipeline_raises[OF lk] tb
    have "general_pipeline env u ex fd fe s = (Inl e, rollback c1 s1)" by simp
    moreover have "downloads (rollback c1 s1) = downloads s1"
      by (rule count_same) (rule rollback_keeps)
    ultimately show ?thesis using d0 d1 by simp
  next
    case (Inr ret)
    with general_pipeline_returns[OF lk] tb
    have "snd (general_pipeline env u ex fd fe s) = s1" by simp
    then show ?thesis using d0 d1 by simp
  qed
qed

lemma general_pipeline_success:
  assumes lk: "lookup_or_create env u s = (Inr c, s0)"
      and gp: "general_pipeline env u ex fd fe s = (Inr p, s')"
  obtains d s1 x c1 s2 where "download_stage env c fd s0 = (Inr d, s1)"
      and "extract_stage env c ex d fe s1 = (Inr x, c1, s2)"
      and "s' = (if d \<or> x then update env c1 s2 else s2)"
      and "p = (if (ex \<or> fe) \<and> extraction_path c1 \<noteq> None then the (extraction_path c1) else local_path c1)"
proof (cases rule: try_body_cases[of env c fd s0 ex fe])
  case (download_failed e s1)
  with general_pipeline_raises[OF lk download_failed(2)] gp show ?thesis by simp
next
  case (extract_failed d s1 e c1 s2)
  with general_pipeline_raises[OF lk extract_failed(3)] gp show ?thesis by simp
next
  case (succeeded d s1 x c1 s2)
  from general_pipeline_returns[OF lk succeeded(3)] gp
  have "s' = (if d \<or> x then update env c1 s2 else s2)"
    and "p = (if (ex \<or> fe) \<and> extraction_path c1 \<noteq> None then the (extraction_path c1) else local_path c1)"
    by (auto split: if_splits)
  with succeeded(1,2) that show ?thesis by blast
qed

lemma general_pipeline_failure:
  assumes lk: "lookup_or_create env u s = (Inr c, s0)"
      and gp: "general_pipeline env u ex fd fe s = (Inl e, s')"
  shows "cache s' = cache s0" and "updates s' = updates s"
    and "\<not> path_exists (fs s') (local_path c)"
proof -
  have "cache s' = cache s0 \<and> updates s' = updates s \<and> \<not> path_exists (fs s') (local_path c)"
  proof (cases rule: try_body_cases[of env c fd s0 ex fe])
    case (download_failed e1 s1)
    from general_pipeline_raises[OF lk download_failed(2)] gp
    have s': "s' = rollback c s1" by simp
    have "cache s1 = cache s0" using download_stage_keeps[OF download_failed(1)] by simp
    moreover have "updates s1 = updates s0"
      using count_events(3)[of s1 s0] download_stage_trace[of env c fd s0] download_failed(1) by simp
    moreover have "updates s0 = updates s"
      by (rule count_same) (rule lookup_or_create_props(2)[OF lk])
    moreover have "updates (rollback c s1) = updates s1" by (rule count_same) (rule rollback_keeps)
    ultimately show ?thesis unfolding s' by (simp add: rollback_keeps rollback_local_gone)
  next
    case (extract_failed d s1 e1 c1 s2)
    from general_pipeline_raises[OF lk extract_failed(3)] gp
    have s': "s' = rollback c1 s2" by simp
    have c1: "c1 = c\<lparr>extraction_path := Some (local_path c @ ''-extracted'')\<rparr>"
      using extract_failed(2) by (simp add: extract_stage_fails_iff)
    have "cache s1 = cache s0" using download_stage_keeps[OF extract_failed(1)] by simp
    moreover have "cache s2 = cache s1"
      using extract_stage_cache[of env c ex d fe s1] extract_failed(2) by simp
    moreover have "updates s1 = updates s0"
      using count_events(3)[of s1 s0] download_stage_trace[of env c fd s0] extract_failed(1) by simp
    moreover have "updates s2 = updates s1"
      using count_events(3)[of s2 s1] extract_stage_trace[of env c ex d fe s1] extract_failed(2) by simp
    moreover have "updates s0 = updates s"
      by (rule count_same) (rule lookup_or_create_props(2)[OF lk])
    moreover have "updates (rollback c1 s2) = updates s2" by (rule count_same) (rule rollback_keeps)
    moreover have "\<not> path_exists (fs (rollback c1 s2)) (local_path c)"
      using rollback_local_gone[of c1 s2] c1 by simp
    ultimately show ?thesis unfolding s' by (simp add: rollback_keeps)
  next
    case (succeeded d s1 x c1 s2)
    from general_pipeline_returns[OF lk succeeded(3)] gp show ?thesis by simp
  qed
  then show "cache s' = cache s0" and "updates s' = updates s"
    and "\<not> path_exists (fs s') (local_path c)" by simp_all
qed

section \<open>Rollback\<close>

lemma pipeline_rollback:
  assumes lk: "lookup_or_create env u s = (Inr cached, s0)"
      and fl: "download_raises env cached force_download s0 e
               \<or> extraction_raises env cached extract force_download force_extract s0 e"
  shows "\<exists>s'. general_pipeline env u extract force_download force_extract s = (Inl e, s')
            \<and> rollback_catches e
            \<and> \<not> path_exists (fs s') (local_path cached)
            \<and> (download_raises env cached force_download s0 e \<longrightarrow>
                 (\<forall>p. extraction_path cached = Some p \<longrightarrow> \<not> path_exists (fs s') p))
            \<and> (extraction_raises env cached extract force_download force_extract s0 e \<longrightarrow>
                 \<not> path_exists (fs s') (local_path cached @ ''-extracted''))
            \<and> cache s' = cache s0"
proof -
  have rc: "rollback_catches e" by (cases e) simp_all
  from fl show ?thesis
  proof
    assume dr: "download_raises env cached force_download s0 e"
    let ?s1 = "snd (download env (url cached) (local_path cached) s0)"
    have nx: "\<not> extraction_raises env cached extract force_download force_extract s0 e"
      using download_raises_stage[OF dr] by (simp add: extraction_raises_def)
    have g: "general_pipeline env u extract force_download force_extract s = (Inl e, rollback cached ?s1)"
      using lk rc by (simp add: general_pipeline_def download_raises_try_body[OF dr])
    have l: "\<not> path_exists (fs (rollback cached ?s1)) (local_path cached)"
      by (rule rollback_local_gone)
    have x: "\<forall>p. extraction_path cached = Some p \<longrightarrow> \<not> path_exists (fs (rollback cached ?s1)) p"
      by (simp add: rollback_extraction_gone)
    have c: "cache (rollback cached ?s1) = cache s0"
      by (simp add: rollback_keeps download_keeps)
    show ?thesis
      by (rule exI[of _ "rollback cached ?s1"]) (use g l x c rc nx in simp)
  next
    assume er: "extraction_raises env cached extract force_download force_extract s0 e"
    let ?dst = "local_path cached @ ''-extracted''"
    let ?c1 = "cached\<lparr>extraction_path := Some ?dst\<rparr>"
    from extraction_raises_try_body[OF er] obtain s2 where
      tb: "try_body env cached extract force_download force_extract s0 = (Inl e, ?c1, s2)"
      and cs: "cache s2 = cache s0" by (elim exE conjE)
    have nd: "\<not> download_raises env cached force_download s0 e"
    proof
      assume "download_raises env cached force_download s0 e"
      from download_raises_stage[OF this] er show False
        by (simp add: extraction_raises_def)
    qed
    have g: "general_pipeline env u extract force_download force_extract s = (Inl e, rollback ?c1 s2)"
      using lk rc by (simp add: general_pipeline_def tb)
    have l: "\<not> path_exists (fs (rollback ?c1 s2)) (local_path cached)"
      using rollback_local_gone[of ?c1 s2] by simp
    have x: "\<not> path_exists (fs (rollback ?c1 s2)) ?dst"
      by (simp add: rollback_extraction_gone)
    have c: "cache (rollback ?c1 s2) = cache s0"
      by (simp add: rollback_keeps cs)
    show ?thesis
      by (rule exI[of _ "rollback ?c1 s2"]) (use g l x c rc nd in simp)
  qed
qed

text \<open>
  C1. When the download or the extraction raises inside the pipeline (an error of
  the collaborator or a cancellation signal), \<open>cached_path\<close> raises that same
  exception, and before it does the file at \<open>local_path\<close> is gone, the
  extraction directory of the record is gone (the recorded one when the download
  failed, the freshly named one when the extraction failed), and the metadata store
  is as lookup or creation left it.
\<close>

theorem cached_path_rollback:
  assumes lk: "lookup_or_create env u s = (Inr cached, s0)"
      and fl: "download_raises env cached force_download s0 e
               \<or> extraction_raises env cached extract force_download force_extract s0 e"
  shows "\<exists>s'. general_pipeline env u extract force_download force_extract s = (Inl e, s')
            \<and> rollback_catches e
            \<and> \<not> path_exists (fs s') (local_path cached)
            \<and> (download_raises env cached force_download s0 e \<longrightarrow>
                 (\<forall>p. extraction_path cached = Some p \<longrightarrow> \<not> path_exists (fs s') p))
            \<and> (extraction_raises env cached extract force_download force_extract s0 e \<longrightarrow>
                 \<not> path_exists (fs s') (local_path cached @ ''-extracted''))
            \<and> cache s' = cache s0"
  using lk fl by (rule pipeline_rollback)

lemma lookup_fresh:
  "lookup_or_create interrupted ''h:a.zip'' fresh
     = (Inr first_row, fresh\<lparr>cache := [first_row], next_id := 2\<rparr>)"
  by (simp add: lookup_or_create_def contains_def add_def fresh_def first_row_def
                interrupted_def world_def Let_def)

theorem cached_path_rollback_witness:
  "download_raises interrupted first_row False (fresh\<lparr>cache := [first_row], next_id := 2\<rparr>) KeyboardInterrupt
   \<and> (\<exists>s'. general_pipeline interrupted ''h:a.zip'' True False False fresh = (Inl KeyboardInterrupt, s')
           \<and> \<not> path_exists (fs s') ''/c/h:a.zip''
           \<and> cache s' = [first_row])"
proof -
  have dr: "download_raises interrupted first_row False (fresh\<lparr>cache := [first_row], next_id := 2\<rparr>) KeyboardInterrupt"
    by (simp add: download_raises_def needs_download_def path_exists_def fresh_def
                  first_row_def interrupted_def world_def)
  from cached_path_rollback[OF lookup_fresh disjI1[OF dr], of True False]
  obtain s' where
    "general_pipeline interrupted ''h:a.zip'' True False False fresh = (Inl KeyboardInterrupt, s')"
    "\<not> path_exists (fs s') (local_path first_row)"
    "cache s' = cache (fresh\<lparr>cache := [first_row], next_id := 2\<rparr>)"
    by (elim exE conjE)
  then have "\<exists>s'. general_pipeline interrupted ''h:a.zip'' True False False fresh = (Inl KeyboardInterrupt, s')
           \<and> \<not> path_exists (fs s') ''/c/h:a.zip''
           \<and> cache s' = [first_row]"
    by (intro exI[of _ s']) (simp add: first_row_def)
  with dr show ?thesis by (rule conjI)
qed

section \<open>Evaluating the model\<close>

lemmas pipeline_defs =
  general_pipeline_def lookup_or_create_def contains_def by_url_def add_def try_body_def
  download_stage_def needs_download_def download_def extract_stage_def needs_extract_def
  prepare_destination_def extract_archive_file_def write_tree_def update_def rollback_def
  remove_file_or_directory_def at_or_below_def is_expired_def path_exists_def joinpath_def
  Let_def

lemma world_text_lookup:
  "lookup_or_create world ''h:r.txt'' fresh
     = (Inr text_row, fresh\<lparr>cache := [text_row], next_id := 2\<rparr>)"
  by (simp add: lookup_or_create_def contains_def add_def fresh_def text_row_def world_def Let_def)

lemma world_text_result:
  "fst (general_pipeline world ''h:r.txt'' False False False fresh) = Inr ''/c/h:r.txt''"
  by (simp add: pipeline_defs fresh_def world_def)

section \<open>The download decision\<close>

text \<open>
  C2. In the general pipeline the transport is called (once) exactly when the file at
  the record's \<open>local_path\<close> is missing, or the record is expired, or
  \<open>force_download\<close> is set; and when a download happened and the pipeline
  returns, \<open>Cache.update\<close> has been called once and the row of the URL carries
  the new \<open>updated_at\<close>.
\<close>

theorem download_decision:
  assumes lk: "lookup_or_create env u s = (Inr cached, s0)"
      and gp: "general_pipeline env u extract force_download force_extract s = (r, s')"
  shows "downloads s' = downloads s +
           (if \<not> path_exists (fs s) (local_path cached) \<or> is_expired env cached \<or> force_download
            then 1 else 0)
       \<and> ((\<not> path_exists (fs s) (local_path cached) \<or> is_expired env cached \<or> force_download)
            \<and> (\<exists>p. r = Inr p) \<longrightarrow>
          updates s' = Suc (updates s)
          \<and> (\<exists>row. by_url u s' = Inr row \<and> updated_at row = now env
                    \<and> local_path row = local_path cached))"
proof (intro conjI impI)
  have nd: "needs_download env cached force_download s0 =
      (\<not> path_exists (fs s) (local_path cached) \<or> is_expired env cached \<or> force_download)"
    by (simp add: needs_download_def lookup_or_create_props(1)[OF lk])
  show "downloads s' = downloads s +
           (if \<not> path_exists (fs s) (local_path cached) \<or> is_expired env cached \<or> force_download
            then 1 else 0)"
    using general_pipeline_downloads[OF lk, of "extract" force_download force_extract] gp
    by (simp only: nd snd_conv)
  assume a: "(\<not> path_exists (fs s) (local_path cached) \<or> is_expired env cached \<or> force_download)
            \<and> (\<exists>p. r = Inr p)"
  then obtain p where r: "r = Inr p" by blast
  from a nd have need: "needs_download env cached force_download s0" by simp
  from gp r have gp': "general_pipeline env u extract force_download force_extract s = (Inr p, s')"
    by simp
  from lk gp' obtain d s1 x c1 s2 where
    ds: "download_stage env cached force_download s0 = (Inr d, s1)"
    and es: "extract_stage env cached extract d force_extract s1 = (Inr x, c1, s2)"
    and s': "s' = (if d \<or> x then update env c1 s2 else s2)"
    by (rule general_pipeline_success)
  from download_stage_ok(1)[OF ds] need have d: d by simp
  with s' have s'': "s' = update env c1 s2" by simp
  have u0: "updates s0 = updates s"
    by (rule count_same) (rule lookup_or_create_props(2)[OF lk])
  have u1: "updates s1 = updates s0"
    using count_events(3)[of s1 s0] download_stage_trace[of env cached force_download s0] ds by simp
  have u2: "updates s2 = updates s1"
    using count_events(3)[of s2 s1] extract_stage_trace[of env cached "extract" d force_extract s1] es
    by simp
  have u3: "updates s' = updates s2 + 1"
    unfolding s'' using count_events(3)[of "update env c1 s2" s2 "[Update (cf_id c1)]"]
    by (simp add: update_keeps)
  show "updates s' = Suc (updates s)" using u0 u1 u2 u3 by simp
  have cs: "cache s2 = cache s0"
    using extract_stage_cache[of env cached "extract" d force_extract s1] es download_stage_ok(2)[OF ds]
    by simp
  have f: "find (\<lambda>r. url r = u) (cache s2) = Some cached"
    using lookup_or_create_props(3)[OF lk] cs by simp
  have "by_url u s' = Inr (cached\<lparr>local_path := local_path c1,
            extraction_path := extraction_path c1, updated_at := now env\<rparr>)"
    unfolding s'' by (rule by_url_update[OF f extract_stage_ok(4)[OF es]])
  then show "\<exists>row. by_url u s' = Inr row \<and> updated_at row = now env
                    \<and> local_path row = local_path cached"
    using extract_stage_ok(2)[OF es] by simp
qed

theorem download_decision_witness:
  "\<not> path_exists (fs fresh) (local_path text_row)
   \<and> fst (general_pipeline world ''h:r.txt'' False False False fresh) = Inr ''/c/h:r.txt''
   \<and> downloads (snd (general_pipeline world ''h:r.txt'' False False False fresh)) = 1
   \<and> updates (snd (general_pipeline world ''h:r.txt'' False False False fresh)) = 1"
proof -
  have m: "\<not> path_exists (fs fresh) (local_path text_row)"
    by (simp add: path_exists_def fresh_def)
  have z: "downloads fresh = 0" "updates fresh = 0"
    by (simp_all add: downloads_def updates_def fresh_def)
  from download_decision[OF world_text_lookup surjective_pairing, of False False False]
       m world_text_result z
  show ?thesis by simp
qed

section \<open>A failure deletes a valid artifact\<close>

text \<open>
  C10. When the pipeline fails, the file at \<open>local_path\<close> is deleted also when it
  existed before the call (for instance when nothing had to be downloaded and only
  the extraction failed), and the next resolution of the same URL, whatever its
  flags, calls the transport again.
\<close>

theorem failure_deletes_valid_artifact:
  assumes lk: "lookup_or_create env u s = (Inr cached, s0)"
      and pre: "path_exists (fs s) (local_path cached)"
      and fl: "download_raises env cached force_download s0 e
               \<or> extraction_raises env cached extract force_download force_extract s0 e"
  shows "\<exists>s'. general_pipeline env u extract force_download force_extract s = (Inl e, s')
            \<and> \<not> path_exists (fs s') (local_path cached)
            \<and> (\<forall>env' extract' force_download' force_extract'.
                  downloads (snd (general_pipeline env' u extract' force_download' force_extract' s'))
                  = Suc (downloads s'))"
proof -
  from pipeline_rollback[OF lk fl] obtain s' where
    gp: "general_pipeline env u extract force_download force_extract s = (Inl e, s')"
    and gone: "\<not> path_exists (fs s') (local_path cached)"
    and cs: "cache s' = cache s0" by (elim exE conjE)
  have f: "find (\<lambda>r. url r = u) (cache s') = Some cached"
    using lookup_or_create_props(3)[OF lk] cs by simp
  have "downloads (snd (general_pipeline env' u ex' fd' fe' s')) = Suc (downloads s')"
    for env' ex' fd' fe'
    using general_pipeline_downloads[OF lookup_or_create_found[OF f], of env' ex' fd' fe'] gone
    by (simp add: needs_download_def)
  with gp gone show ?thesis by blast
qed

lemma broken_lookup: "lookup_or_create broken ''h:a.zip'' zip_cached = (Inr first_row, zip_cached)"
  by (simp add: lookup_or_create_def contains_def by_url_def zip_cached_def first_row_def)

theorem failure_deletes_valid_artifact_witness:
  "path_exists (fs zip_cached) (local_path first_row)
   \<and> \<not> needs_download broken first_row False zip_cached
   \<and> extraction_raises broken first_row True False False zip_cached (Exception ''ExtractionError'')
   \<and> (\<exists>s'. general_pipeline broken ''h:a.zip'' True False False zip_cached
               = (Inl (Exception ''ExtractionError''), s')
           \<and> \<not> path_exists (fs s') ''/c/h:a.zip''
           \<and> downloads (snd (general_pipeline world ''h:a.zip'' True False False s')) = Suc (downloads s'))"
proof -
  have pre: "path_exists (fs zip_cached) (local_path first_row)"
    by (simp add: path_exists_def zip_cached_def first_row_def)
  have nd: "\<not> needs_download broken first_row False zip_cached"
    by (simp add: needs_download_def is_expired_def path_exists_def zip_cached_def first_row_def
                  broken_def world_def)
  have er: "extraction_raises broken first_row True False False zip_cached (Exception ''ExtractionError'')"
    by (simp add: extraction_raises_def pipeline_defs
                  first_row_def zip_cached_def broken_def world_def)
  from failure_deletes_valid_artifact[OF broken_lookup pre disjI2[OF er]]
  obtain s' where
    "general_pipeline broken ''h:a.zip'' True False False zip_cached
       = (Inl (Exception ''ExtractionError''), s')"
    "\<not> path_exists (fs s') (local_path first_row)"
    "\<forall>env' extract' force_download' force_extract'.
        downloads (snd (general_pipeline env' ''h:a.zip'' extract' force_download' force_extract' s'))
        = Suc (downloads s')"
    by (elim exE conjE)
  then have "\<exists>s'. general_pipeline broken ''h:a.zip'' True False False zip_cached
               = (Inl (Exception ''ExtractionError''), s')
           \<and> \<not> path_exists (fs s') ''/c/h:a.zip''
           \<and> downloads (snd (general_pipeline world ''h:a.zip'' True False False s')) = Suc (downloads s')"
    by (intro exI[of _ s']) (simp add: first_row_def)
  with pre nd er show ?thesis by simp
qed

lemma rsplit_bang_parts:
  assumes "CHR ''!'' \<in> set u"
  shows "u = fst (rsplit_bang u) @ ''!'' @ snd (rsplit_bang u)"
    and "CHR ''!'' \<notin> set (snd (rsplit_bang u))"
proof -
  let ?P = "\<lambda>c. c \<noteq> CHR ''!''"
  let ?d = "dropWhile ?P (rev u)"
  let ?t = "takeWhile ?P (rev u)"
  from assms have ne: "?d \<noteq> []" by (simp add: dropWhile_eq_Nil_conv)
  then have "\<not> ?P (hd ?d)" by (rule hd_dropWhile)
  then have hd: "hd ?d = CHR ''!''" by simp
  from ne hd have d: "?d = CHR ''!'' # tl ?d" by (cases ?d) simp_all
  have "rev u = ?t @ ?d" by simp
  then have "rev u = ?t @ CHR ''!'' # tl ?d" using d by simp
  then have "rev (rev u) = rev (?t @ CHR ''!'' # tl ?d)" by (rule arg_cong)
  then show "u = fst (rsplit_bang u) @ ''!'' @ snd (rsplit_bang u)"
    by (simp add: rsplit_bang_def)
  have "\<forall>c\<in>set ?t. ?P c" by (auto dest: set_takeWhileD)
  then show "CHR ''!'' \<notin> set (snd (rsplit_bang u))"
    by (auto simp: rsplit_bang_def)
qed

lemma cached_path_nested:
  assumes "CHR ''!'' \<in> set u"
  shows "cached_path env u ex fd fe s =
     (case cached_path env (fst (rsplit_bang u)) True fd fe s of
        (Inl e, s1) \<Rightarrow> (Inl e, s1)
      | (Inr archive_path, s1) \<Rightarrow>
          if \<not> is_dir (fs s1) archive_path then (Inl (Exception ''ValueError''), s1)
          else (case extract_path env (snd (rsplit_bang u)) of
                  Inl e \<Rightarrow> (Inl e, s1)
                | Inr file_path \<Rightarrow> (Inr (joinpath archive_path file_path), s1)))"
  using assms by (subst cached_path.simps) simp

section \<open>Nested archive references\<close>

text \<open>
  C6. An identifier that contains the marker \<open>!\<close> is split at the last marker;
  the part before it is resolved recursively with \<open>extract = True\<close> and the
  caller's force flags. An error of that resolution is passed on. When it returns a
  path that is not a directory, \<open>cached_path\<close> raises \<open>ValueError\<close> (the
  InvalidReference of the spec); otherwise the result is the returned directory
  joined with the normalized inner path, and the state is the one the recursive
  resolution left: the store is not touched again.
\<close>

theorem nested_reference:
  assumes "CHR ''!'' \<in> set u"
  shows "u = fst (rsplit_bang u) @ ''!'' @ snd (rsplit_bang u)
       \<and> CHR ''!'' \<notin> set (snd (rsplit_bang u))
       \<and> (\<forall>e s1. cached_path env (fst (rsplit_bang u)) True force_download force_extract s = (Inl e, s1)
              \<longrightarrow> cached_path env u extract force_download force_extract s = (Inl e, s1))
       \<and> (\<forall>d s1. cached_path env (fst (rsplit_bang u)) True force_download force_extract s = (Inr d, s1)
              \<longrightarrow> (\<not> is_dir (fs s1) d \<longrightarrow>
                     cached_path env u extract force_download force_extract s
                       = (Inl (Exception ''ValueError''), s1))
                \<and> (is_dir (fs s1) d \<longrightarrow>
                     (\<forall>q. extract_path env (snd (rsplit_bang u)) = Inr q \<longrightarrow>
                        cached_path env u extract force_download force_extract s
                          = (Inr (joinpath d q), s1))
                   \<and> (\<forall>e. extract_path env (snd (rsplit_bang u)) = Inl e \<longrightarrow>
                        cached_path env u extract force_download force_extract s = (Inl e, s1))))"
  using rsplit_bang_parts[OF assms]
  by (simp add: cached_path_nested[OF assms])

lemma world_zip_extracted:
  "fst (cached_path world ''h:a.zip'' True False False fresh) = Inr ''/c/h:a.zip-extracted''"
  by (simp add: cached_path.simps pipeline_defs world_def fresh_def)

lemma world_zip_is_dir:
  "is_dir (fs (snd (cached_path world ''h:a.zip'' True False False fresh))) ''/c/h:a.zip-extracted''"
  by (simp add: cached_path.simps pipeline_defs is_dir_def world_def fresh_def)

lemma world_text_not_dir:
  "fst (cached_path world ''h:r.txt'' True False False fresh) = Inr ''/c/h:r.txt''
   \<and> \<not> is_dir (fs (snd (cached_path world ''h:r.txt'' True False False fresh))) ''/c/h:r.txt''"
  by (simp add: cached_path.simps pipeline_defs is_dir_def world_def fresh_def)

lemma rsplit_zip_member: "rsplit_bang ''h:a.zip!a.txt'' = (''h:a.zip'', ''a.txt'')"
  by (simp add: rsplit_bang_def)

lemma rsplit_text_member: "rsplit_bang ''h:r.txt!x'' = (''h:r.txt'', ''x'')"
  by (simp add: rsplit_bang_def)

theorem nested_reference_witness:
  "cached_path world ''h:a.zip!a.txt'' False False False fresh
     = (Inr ''/c/h:a.zip-extracted/a.txt'', snd (cached_path world ''h:a.zip'' True False False fresh))
   \<and> cached_path world ''h:r.txt!x'' False False False fresh
     = (Inl (Exception ''ValueError''), snd (cached_path world ''h:r.txt'' True False False fresh))"
proof -
  have a: "cached_path world ''h:a.zip'' True False False fresh
           = (Inr ''/c/h:a.zip-extracted'', snd (cached_path world ''h:a.zip'' True False False fresh))"
    using world_zip_extracted by (simp add: prod_eq_iff)
  have b: "cached_path world ''h:r.txt'' True False False fresh
           = (Inr ''/c/h:r.txt'', snd (cached_path world ''h:r.txt'' True False False fresh))"
    using world_text_not_dir by (simp add: prod_eq_iff)
  have q: "extract_path world ''a.txt'' = Inr ''a.txt''" by (simp add: world_def)
  have 1: "cached_path world ''h:a.zip!a.txt'' False False False fresh
     = (Inr (joinpath ''/c/h:a.zip-extracted'' ''a.txt''), snd (cached_path world ''h:a.zip'' True False False fresh))"
    using nested_reference[of "''h:a.zip!a.txt''" world False False fresh False] a q world_zip_is_dir
    by (simp add: rsplit_zip_member)
  have 2: "cached_path world ''h:r.txt!x'' False False False fresh
     = (Inl (Exception ''ValueError''), snd (cached_path world ''h:r.txt'' True False False fresh))"
    using nested_reference[of "''h:r.txt!x''" world False False fresh False] b world_text_not_dir
    by (simp add: rsplit_text_member)
  from 1 2 show ?thesis by (simp add: joinpath_def)
qed

section \<open>Which modes of \<open>open\<close> go through the cache\<close>

text \<open>
  C5. The claim says that append, exclusive-creation and write-combination modes
  bypass the cache. The test of line 41 is a conjunction, so it only bypasses the
  cache for a mode that contains all of \<open>a\<close>, \<open>w\<close>, \<open>x\<close> and \<open>+\<close>: with
  \<open>use_cache\<close> set, the modes \<open>a\<close>, \<open>x\<close> and \<open>w+\<close> are resolved through
  \<open>cached_path\<close>, and \<open>open\<close> in mode \<open>a\<close> on the remote \<open>h:r.txt\<close>
  downloads it and opens the cached copy.
\<close>

theorem open_write_modes_use_cache:
  "minato_open env u ''a'' extract True force_download force_extract s
     = (case cached_path env u extract force_download force_extract s of
          (Inl e, s1) \<Rightarrow> (Inl e, s1) | (Inr p, s1) \<Rightarrow> open_file p ''a'' s1)
   \<and> minato_open env u ''x'' extract True force_download force_extract s
     = (case cached_path env u extract force_download force_extract s of
          (Inl e, s1) \<Rightarrow> (Inl e, s1) | (Inr p, s1) \<Rightarrow> open_file p ''x'' s1)
   \<and> minato_open env u ''w+'' extract True force_download force_extract s
     = (case cached_path env u extract force_download force_extract s of
          (Inl e, s1) \<Rightarrow> (Inl e, s1) | (Inr p, s1) \<Rightarrow> open_file p ''w+'' s1)
   \<and> fst (minato_open world ''h:r.txt'' ''a'' False True False False fresh) = Inr (''/c/h:r.txt'', ''a'')
   \<and> downloads (snd (minato_open world ''h:r.txt'' ''a'' False True False False fresh)) = 1"
proof -
  have "fst (minato_open world ''h:r.txt'' ''a'' False True False False fresh) = Inr (''/c/h:r.txt'', ''a'')"
    by (simp add: minato_open_def open_file_def cached_path.simps pipeline_defs world_def fresh_def)
  moreover have "downloads (snd (minato_open world ''h:r.txt'' ''a'' False True False False fresh)) = 1"
    by (simp add: minato_open_def open_file_def cached_path.simps pipeline_defs downloads_def
                  world_def fresh_def)
  ultimately show ?thesis by (simp add: minato_open_def)
qed

section \<open>The module-level functions fail\<close>

text \<open>
  C9. Once the configuration is loaded and the resolver is built, the module-level
  \<open>open\<close> and \<open>cached_path\<close> raise \<open>TypeError\<close> for every input, because they
  pass keywords (\<open>auto_update\<close>, \<open>expire_days\<close>, \<open>retry\<close>) that
  \<open>Minato.open\<close> and \<open>Minato.cached_path\<close> do not accept, and
  \<open>remove_cache\<close> raises \<open>AttributeError\<close>; \<open>delete\<close> raises
  \<open>AttributeError\<close> for every input. None of them changes the state: no
  resolution work is done.
\<close>

theorem module_functions_fail:
  "module_open load u mode extract auto_update use_cache force_download force_extract cache_root ed s
     = ((case load cache_root of Inl e \<Rightarrow> Inl e | Inr _ \<Rightarrow> Inl (Exception ''TypeError'')), s)
   \<and> module_cached_path load u extract auto_update force_download force_extract retry cache_root ed s
     = ((case load cache_root of Inl e \<Rightarrow> Inl e | Inr _ \<Rightarrow> Inl (Exception ''TypeError'')), s)
   \<and> module_remove_cache load u cache_root s
     = ((case load cache_root of Inl e \<Rightarrow> Inl e | Inr _ \<Rightarrow> Inl (Exception ''AttributeError'')), s)
   \<and> module_delete u s = (Inl (Exception ''AttributeError''), s)"
  by (simp add: module_open_def module_cached_path_def module_remove_cache_def module_delete_def
                getattr_def bind_keywords_def Minato_attributes_def split: sum.splits)

lemma cached_path_plain:
  assumes "CHR ''!'' \<notin> set u" and "\<not> passes_through env u ex s"
      and "cached_path env u ex fd fe s = (Inr p, s')"
  shows "general_pipeline env (pipeline_url env u) ex fd fe s = (Inr p, s')"
  using assms
  by (subst (asm) cached_path.simps)
     (auto simp: passes_through_def pipeline_url_def split: if_splits sum.splits)

lemma cached_path_passes_through:
  assumes "CHR ''!'' \<notin> set u" and "passes_through env u ex s"
  shows "cached_path env u ex fd fe s = (Inr (pipeline_url env u), s)"
  using assms
  by (subst cached_path.simps)
     (auto simp: passes_through_def pipeline_url_def split: if_splits sum.splits)

lemma general_pipeline_result_exists:
  assumes lk: "lookup_or_create env u s = (Inr c, s0)"
      and gp: "general_pipeline env u ex fd fe s = (Inr p, s')"
      and od: "extraction_on_disk s c"
  shows "path_exists (fs s') p"
    and "path_exists (fs s') (local_path c)"
    and "\<exists>row. by_url u s' = Inr row \<and> on_disk s' row"
proof -
  from lk gp obtain d s1 x c1 s2 where
    ds: "download_stage env c fd s0 = (Inr d, s1)"
    and es: "extract_stage env c ex d fe s1 = (Inr x, c1, s2)"
    and s': "s' = (if d \<or> x then update env c1 s2 else s2)"
    and p: "p = (if (ex \<or> fe) \<and> extraction_path c1 \<noteq> None then the (extraction_path c1) else local_path c1)"
    by (rule general_pipeline_success)
  have fs': "fs s' = fs s2" by (simp add: s' update_keeps)
  have fs0: "fs s0 = fs s" by (rule lookup_or_create_props(1)[OF lk])
  have l1: "path_exists (fs s1) (local_path c)"
  proof (cases d)
    case True
    then show ?thesis by (rule download_stage_ok(4)[OF ds])
  next
    case False
    with download_stage_ok(1)[OF ds] have "\<not> needs_download env c fd s0" by simp
    then have "path_exists (fs s0) (local_path c)" by (simp add: needs_download_def)
    then show ?thesis by (rule download_stage_ok(6)[OF ds])
  qed
  have l2: "path_exists (fs s2) (local_path c)" using l1 by (rule extract_stage_ok(8)[OF es])
  show l': "path_exists (fs s') (local_path c)" using l2 fs' by simp
  have e2: "extraction_on_disk s' c1"
  proof (cases x)
    case True
    from extract_stage_ok(5)[OF es True] extract_stage_ok(6)[OF es True] show ?thesis
      by (simp add: extraction_on_disk_def fs')
  next
    case False
    from extract_stage_ok(7)[OF es False] have c1: "c1 = c" and s2: "s2 = s1" by simp_all
    show ?thesis
    proof (cases "extraction_path c")
      case None
      then show ?thesis by (simp add: extraction_on_disk_def c1)
    next
      case (Some q)
      with od have "path_exists (fs s0) q" by (simp add: extraction_on_disk_def fs0)
      then have "path_exists (fs s1) q" by (rule download_stage_ok(6)[OF ds])
      with Some show ?thesis by (simp add: extraction_on_disk_def c1 fs' s2)
    qed
  qed
  show "path_exists (fs s') p"
  proof (cases "(ex \<or> fe) \<and> extraction_path c1 \<noteq> None")
    case True
    then obtain q where q: "extraction_path c1 = Some q" by auto
    with e2 have "path_exists (fs s') q" by (simp add: extraction_on_disk_def)
    with True q p show ?thesis by simp
  next
    case False
    from p have "p = local_path c1" by (simp only: False if_False)
    with extract_stage_ok(2)[OF es] l' show ?thesis by simp
  qed
  have cs: "cache s2 = cache s0"
    using extract_stage_cache[of env c ex d fe s1] es download_stage_ok(2)[OF ds] by simp
  have f: "find (\<lambda>r. url r = u) (cache s2) = Some c"
    using lookup_or_create_props(3)[OF lk] cs by simp
  show "\<exists>row. by_url u s' = Inr row \<and> on_disk s' row"
  proof (cases "d \<or> x")
    case True
    then have s'': "s' = update env c1 s2" using s' by simp
    have "by_url u s' = Inr (c\<lparr>local_path := local_path c1,
            extraction_path := extraction_path c1, updated_at := now env\<rparr>)"
      unfolding s'' by (rule by_url_update[OF f extract_stage_ok(4)[OF es]])
    moreover have "on_disk s' (c\<lparr>local_path := local_path c1,
            extraction_path := extraction_path c1, updated_at := now env\<rparr>)"
      using l' e2 extract_stage_ok(2)[OF es] by (simp add: on_disk_def extraction_on_disk_def)
    ultimately show ?thesis by blast
  next
    case False
    then have s'': "s' = s2" and nx: "\<not> x" using s' by simp_all
    from extract_stage_ok(7)[OF es nx] have c1: "c1 = c" by simp
    have "by_url u s' = Inr c" using f by (simp add: by_url_def s'')
    moreover have "on_disk s' c" using l' e2 c1 by (simp add: on_disk_def)
    ultimately show ?thesis by blast
  qed
qed

section \<open>Does the returned path exist?\<close>

text \<open>
  As C7 states it, the claim fails for a nested reference: resolving
  \<open>h:a.zip!nope\<close> in the fresh store returns a path below the extraction
  directory that is not on disk, since the archive has no such member.
\<close>

theorem returned_path_missing_counterexample:
  "fst (cached_path world ''h:a.zip!nope'' False False False fresh) = Inr ''/c/h:a.zip-extracted/nope''
   \<and> \<not> path_exists (fs (snd (cached_path world ''h:a.zip!nope'' False False False fresh)))
         ''/c/h:a.zip-extracted/nope''"
  by (simp add: cached_path.simps rsplit_bang_def is_dir_def pipeline_defs world_def fresh_def)

text \<open>
  C7 (amended). For an identifier without the marker that is not handed back as a
  plain local path, whenever \<open>cached_path\<close> returns, the returned path exists on
  disk, provided that an extraction directory already recorded for the identifier
  is on disk when the call starts. (For a nested identifier the result is a
  directory joined with the inner path, and nothing checks that it exists.)
\<close>

theorem returned_path_exists:
  assumes "CHR ''!'' \<notin> set u"
      and "\<not> passes_through env u extract s"
      and "lookup_or_create env (pipeline_url env u) s = (Inr cached, s0)"
      and "extraction_on_disk s cached"
      and "cached_path env u extract force_download force_extract s = (Inr p, s')"
  shows "path_exists (fs s') p"
  using general_pipeline_result_exists(1)[OF assms(3) cached_path_plain[OF assms(1,2,5)] assms(4)] .

theorem returned_path_exists_witness:
  "CHR ''!'' \<notin> set ''h:a.zip''
   \<and> \<not> passes_through world ''h:a.zip'' True fresh
   \<and> extraction_on_disk fresh first_row
   \<and> fst (cached_path world ''h:a.zip'' True False False fresh) = Inr ''/c/h:a.zip-extracted''
   \<and> path_exists (fs (snd (cached_path world ''h:a.zip'' True False False fresh))) ''/c/h:a.zip-extracted''"
proof -
  have 1: "CHR ''!'' \<notin> set ''h:a.zip''" by simp
  have 2: "\<not> passes_through world ''h:a.zip'' True fresh"
    by (simp add: passes_through_def world_def)
  have 3: "lookup_or_create world (pipeline_url world ''h:a.zip'') fresh
             = (Inr first_row, fresh\<lparr>cache := [first_row], next_id := 2\<rparr>)"
    by (simp add: pipeline_url_def lookup_or_create_def contains_def add_def fresh_def
                  first_row_def world_def Let_def)
  have 4: "extraction_on_disk fresh first_row"
    by (simp add: extraction_on_disk_def first_row_def)
  have 5: "cached_path world ''h:a.zip'' True False False fresh
           = (Inr ''/c/h:a.zip-extracted'', snd (cached_path world ''h:a.zip'' True False False fresh))"
    using world_zip_extracted by (simp add: prod_eq_iff)
  from returned_path_exists[OF 1 2 3 4 5] 1 2 4 world_zip_extracted show ?thesis by simp
qed

lemma general_pipeline_after_download:
  assumes lk: "lookup_or_create env u s = (Inr c, s0)"
      and ds: "download_stage env c fd s0 = (Inr d, s1)"
  shows "extract_stage env c ex d fe s1 = (Inl e, c1, s2) \<Longrightarrow>
           general_pipeline env u ex fd fe s = (Inl e, rollback c1 s2)"
    and "extract_stage env c ex d fe s1 = (Inr x, c1, s2) \<Longrightarrow>
           general_pipeline env u ex fd fe s =
             (Inr (if (ex \<or> fe) \<and> extraction_path c1 \<noteq> None then the (extraction_path c1)
                   else local_path c1),
              if d \<or> x then update env c1 s2 else s2)"
proof -
  assume es: "extract_stage env c ex d fe s1 = (Inl e, c1, s2)"
  show "general_pipeline env u ex fd fe s = (Inl e, rollback c1 s2)"
    by (rule general_pipeline_raises[OF lk try_body_extract_fails[OF ds es]])
next
  assume es: "extract_stage env c ex d fe s1 = (Inr x, c1, s2)"
  from general_pipeline_returns[OF lk try_body_succeeds[OF ds es]]
  show "general_pipeline env u ex fd fe s =
             (Inr (if (ex \<or> fe) \<and> extraction_path c1 \<noteq> None then the (extraction_path c1)
                   else local_path c1),
              if d \<or> x then update env c1 s2 else s2)"
    by (cases "extraction_path c1") simp_all
qed

lemma general_pipeline_extractions:
  assumes lk: "lookup_or_create env u s = (Inr c, s0)"
      and ds: "download_stage env c fd s0 = (Inr d, s1)"
  shows "extractions (snd (general_pipeline env u ex fd fe s)) =
           extractions s + (if needs_extract env c ex d fe s1 then 1 else 0)"
proof -
  obtain r c1 s2 where es: "extract_stage env c ex d fe s1 = (r, c1, s2)"
    by (cases "extract_stage env c ex d fe s1")
  have e0: "extractions s0 = extractions s"
    by (rule count_same) (rule lookup_or_create_props(2)[OF lk])
  have e1: "extractions s1 = extractions s0"
    using count_events(2)[of s1 s0] download_stage_trace[of env c fd s0] ds by simp
  have e2: "extractions s2 = extractions s1 + (if needs_extract env c ex d fe s1 then 1 else 0)"
    using count_events(2)[of s2 s1] extract_stage_trace[of env c ex d fe s1] es by simp
  show ?thesis
  proof (cases r)
    case (Inl e)
    with es general_pipeline_after_download(1)[OF lk ds]
    have "snd (general_pipeline env u ex fd fe s) = rollback c1 s2" by simp
    moreover have "extractions (rollback c1 s2) = extractions s2"
      by (rule count_same) (rule rollback_keeps)
    ultimately show ?thesis using e0 e1 e2 by simp
  next
    case (Inr x)
    with es general_pipeline_after_download(2)[OF lk ds]
    have "snd (general_pipeline env u ex fd fe s) = (if d \<or> x then update env c1 s2 else s2)"
      by simp
    moreover have "extractions (update env c1 s2) = extractions s2"
      using count_events(2)[of "update env c1 s2" s2 "[Update (cf_id c1)]"] by (simp add: update_keeps)
    ultimately show ?thesis using e0 e1 e2 by simp
  qed
qed

lemma extract_stage_unpacked:
  assumes "needs_extract env c ex d fe s"
      and "unpack env (fs (prepare_destination (local_path c @ ''-extracted'') s)) (local_path c) = Unpacked ms"
  shows "\<exists>s2. extract_stage env c ex d fe s
               = (Inr True, c\<lparr>extraction_path := Some (local_path c @ ''-extracted'')\<rparr>, s2)
             \<and> fs s2 = write_tree (local_path c @ ''-extracted'') ms
                         (fs (prepare_destination (local_path c @ ''-extracted'') s))"
  using assms by (simp add: extract_stage_def extract_archive_file_def Let_def)

section \<open>The extraction decision\<close>

text \<open>
  As C3 states it, the last part of the claim fails: after \<open>h:a.zip\<close> has been
  resolved and extracted, the remote is replaced by a text file; a forced download
  with \<open>extract\<close> set then leaves a non-archive artifact at \<open>local_path\<close>,
  nothing is extracted, and the call returns the recorded extraction directory,
  not \<open>local_path\<close>.
\<close>

theorem extract_non_archive_counterexample:
  "\<not> is_archive_file retexted
        (fs (snd (cached_path retexted ''h:a.zip'' True True False
                    (snd (cached_path world ''h:a.zip'' True False False fresh)))))
        ''/c/h:a.zip''
   \<and> fst (cached_path retexted ''h:a.zip'' True True False
              (snd (cached_path world ''h:a.zip'' True False False fresh)))
       = Inr ''/c/h:a.zip-extracted''
   \<and> fst (cached_path retexted ''h:a.zip'' True True False
              (snd (cached_path world ''h:a.zip'' True False False fresh)))
       \<noteq> Inr ''/c/h:a.zip''"
  by (simp add: cached_path.simps pipeline_defs retexted_def world_def fresh_def)

text \<open>
  C3 (amended). When the download stage has not raised, the extractor is called
  (once) exactly when the artifact at \<open>local_path\<close> is a recognized archive and
  \<open>extract\<close> is set with no recorded extraction path, or a download just happened
  with a recorded extraction path, or \<open>force_extract\<close> is set. When it is called,
  the destination is \<open>local_path\<close> with the suffix \<open>-extracted\<close>, an existing
  destination has been deleted with everything below it, nothing else on disk has
  changed, and a successful extraction leaves exactly the unpacked tree there.
  On a non-archive artifact nothing is extracted and no error is raised; the call
  returns \<open>local_path\<close>, except that with \<open>extract\<close> or \<open>force_extract\<close> set
  and an extraction path already recorded it returns that recorded path.
\<close>

theorem extraction_decision:
  assumes lk: "lookup_or_create env u s = (Inr cached, s0)"
      and ds: "download_stage env cached force_download s0 = (Inr downloaded, s1)"
      and gp: "general_pipeline env u extract force_download force_extract s = (r, s')"
  shows "extractions s' = extractions s +
           (if is_archive_file env (fs s1) (local_path cached)
               \<and> ((extract \<and> extraction_path cached = None)
                    \<or> (downloaded \<and> extraction_path cached \<noteq> None)
                    \<or> force_extract)
            then 1 else 0)
       \<and> (needs_extract env cached extract downloaded force_extract s1 \<longrightarrow>
            fs (prepare_destination (local_path cached @ ''-extracted'') s1)
               (local_path cached @ ''-extracted'') = None
          \<and> (path_exists (fs s1) (local_path cached @ ''-extracted'') \<longrightarrow>
               (\<forall>q. at_or_below (local_path cached @ ''-extracted'') q \<longrightarrow>
                    fs (prepare_destination (local_path cached @ ''-extracted'') s1) q = None))
          \<and> (\<forall>q. \<not> at_or_below (local_path cached @ ''-extracted'') q \<longrightarrow>
                    fs (prepare_destination (local_path cached @ ''-extracted'') s1) q = fs s1 q)
          \<and> (\<forall>ms. unpack env (fs (prepare_destination (local_path cached @ ''-extracted'') s1))
                       (local_path cached) = Unpacked ms \<longrightarrow>
                 fs s' = write_tree (local_path cached @ ''-extracted'') ms
                           (fs (prepare_destination (local_path cached @ ''-extracted'') s1))
               \<and> r = Inr (if extract \<or> force_extract then local_path cached @ ''-extracted''
                           else local_path cached)))
       \<and> (\<not> is_archive_file env (fs s1) (local_path cached) \<longrightarrow>
            extractions s' = extractions s
          \<and> r = Inr (if extract \<or> force_extract
                      then (case extraction_path cached of
                              None \<Rightarrow> local_path cached
                            | Some p \<Rightarrow> p)
                      else local_path cached))"
proof (intro conjI impI allI)
  let ?dst = "local_path cached @ ''-extracted''"
  have ex: "extractions s' = extractions s +
      (if needs_extract env cached extract downloaded force_extract s1 then 1 else 0)"
    using general_pipeline_extractions[OF lk ds, of "extract" force_extract] gp by simp
  then show "extractions s' = extractions s +
           (if is_archive_file env (fs s1) (local_path cached)
               \<and> ((extract \<and> extraction_path cached = None)
                    \<or> (downloaded \<and> extraction_path cached \<noteq> None)
                    \<or> force_extract)
            then 1 else 0)"
    by (simp add: needs_extract_def conj_commute)
  show "fs (prepare_destination ?dst s1) ?dst = None" by (rule prepare_destination_dst)
  show "fs (prepare_destination ?dst s1) q = None"
    if "path_exists (fs s1) ?dst" "at_or_below ?dst q" for q
    using that by (simp add: prepare_destination_clears)
  show "fs (prepare_destination ?dst s1) q = fs s1 q" if "\<not> at_or_below ?dst q" for q
    using that by (rule prepare_destination_other)
  {
    fix ms
    assume ne: "needs_extract env cached extract downloaded force_extract s1"
       and up: "unpack env (fs (prepare_destination ?dst s1)) (local_path cached) = Unpacked ms"
    from extract_stage_unpacked[OF ne up] obtain s2 where
      es: "extract_stage env cached extract downloaded force_extract s1
             = (Inr True, cached\<lparr>extraction_path := Some ?dst\<rparr>, s2)"
      and f2: "fs s2 = write_tree ?dst ms (fs (prepare_destination ?dst s1))" by (elim exE conjE)
    from general_pipeline_after_download(2)[OF lk ds es] gp
    have r: "r = Inr (if extract \<or> force_extract then ?dst else local_path cached)"
      and s': "s' = update env (cached\<lparr>extraction_path := Some ?dst\<rparr>) s2" by simp_all
    show "fs s' = write_tree ?dst ms (fs (prepare_destination ?dst s1))"
      by (simp add: s' update_keeps f2)
    show "r = Inr (if extract \<or> force_extract then ?dst else local_path cached)" by (rule r)
  }
  {
    assume na: "\<not> is_archive_file env (fs s1) (local_path cached)"
    then have ne: "\<not> needs_extract env cached extract downloaded force_extract s1"
      by (simp add: needs_extract_def)
    with ex show "extractions s' = extractions s" by simp
    from general_pipeline_after_download(2)[OF lk ds extract_stage_skipped[OF ne]] gp
    show "r = Inr (if extract \<or> force_extract
                      then (case extraction_path cached of
                              None \<Rightarrow> local_path cached
                            | Some p \<Rightarrow> p)
                      else local_path cached)"
      by (cases "extraction_path cached") (auto split: if_splits)
  }
qed

lemma world_zip_lookup:
  "lookup_or_create world ''h:a.zip'' fresh
     = (Inr first_row, fresh\<lparr>cache := [first_row], next_id := 2\<rparr>)"
  by (simp add: lookup_or_create_def contains_def add_def fresh_def first_row_def world_def Let_def)

theorem extraction_decision_witness:
  "extractions (snd (general_pipeline world ''h:a.zip'' True False False fresh)) = 1
   \<and> extractions (snd (general_pipeline world ''h:r.txt'' True False False fresh)) = 0
   \<and> fst (general_pipeline world ''h:r.txt'' True False False fresh) = Inr ''/c/h:r.txt''"
proof -
  let ?z0 = "fresh\<lparr>cache := [first_row], next_id := 2\<rparr>"
  let ?t0 = "fresh\<lparr>cache := [text_row], next_id := 2\<rparr>"
  have dz: "download_stage world first_row False ?z0
              = (Inr True, snd (download_stage world first_row False ?z0))"
    by (simp add: pipeline_defs first_row_def fresh_def world_def)
  have az: "is_archive_file world (fs (snd (download_stage world first_row False ?z0)))
              (local_path first_row)"
    by (simp add: pipeline_defs first_row_def fresh_def world_def)
  have dt: "download_stage world text_row False ?t0
              = (Inr True, snd (download_stage world text_row False ?t0))"
    by (simp add: pipeline_defs text_row_def fresh_def world_def)
  have at: "\<not> is_archive_file world (fs (snd (download_stage world text_row False ?t0)))
              (local_path text_row)"
    by (simp add: pipeline_defs text_row_def fresh_def world_def)
  have z: "extractions fresh = 0" by (simp add: extractions_def fresh_def)
  have xz: "extraction_path first_row = None" and xt: "extraction_path text_row = None"
    and lt: "local_path text_row = ''/c/h:r.txt''"
    by (simp_all add: first_row_def text_row_def)
  from extraction_decision[OF world_zip_lookup dz surjective_pairing, of True False]
  have 1: "extractions (snd (general_pipeline world ''h:a.zip'' True False False fresh)) = 1"
    using az z xz by simp
  from extraction_decision[OF world_text_lookup dt surjective_pairing, of True False]
  have 2: "extractions (snd (general_pipeline world ''h:r.txt'' True False False fresh)) = 0
       \<and> fst (general_pipeline world ''h:r.txt'' True False False fresh) = Inr ''/c/h:r.txt''"
    using at z xt lt by simp
  from 1 2 show ?thesis by simp
qed

lemma remove_outcome:
  "remove id_or_url s =
     (case (case id_or_url of Inl i \<Rightarrow> by_id i s | Inr k \<Rightarrow> by_url k s) of
        Inl e \<Rightarrow> (Inl e, s)
      | Inr c \<Rightarrow> (Inr (), delete c (rollback c s)))"
  by (simp add: remove_def rollback_def Let_def split: sum.splits)

lemma remove_removes:
  assumes "remove id_or_url s = (Inr (), s2)"
  shows "\<exists>c. (case id_or_url of Inl i \<Rightarrow> by_id i s | Inr k \<Rightarrow> by_url k s) = Inr c
           \<and> \<not> path_exists (fs s2) (local_path c)
           \<and> (\<forall>q. extraction_path c = Some q \<longrightarrow> \<not> path_exists (fs s2) q)
           \<and> list_all (\<lambda>x. cf_id x \<noteq> cf_id c) (cache s2)"
proof -
  let ?l = "case id_or_url of Inl i \<Rightarrow> by_id i s | Inr k \<Rightarrow> by_url k s"
  from assms obtain c where c: "?l = Inr c"
    by (cases ?l) (simp_all add: remove_outcome)
  from assms c have s2: "s2 = delete c (rollback c s)"
    by (simp add: remove_outcome)
  have 1: "\<not> path_exists (fs s2) (local_path c)"
    using rollback_local_gone[of c s] by (simp add: s2 delete_def)
  have 2: "\<forall>q. extraction_path c = Some q \<longrightarrow> \<not> path_exists (fs s2) q"
    using rollback_extraction_gone[of c _ s] by (simp add: s2 delete_def)
  have 3: "list_all (\<lambda>x. cf_id x \<noteq> cf_id c) (cache s2)"
    by (simp add: s2 delete_def list_all_iff)
  show ?thesis by (rule exI[of _ c]) (use c 1 2 3 in simp)
qed

lemma remove_not_found:
  assumes "remove id_or_url s = (Inl e, s2)"
  shows "s2 = s"
  using assms by (simp add: remove_outcome split: sum.splits)

lemma general_pipeline_failure_cause:
  assumes lk: "lookup_or_create env u s = (Inr c, s0)"
      and gp: "general_pipeline env u ex fd fe s = (Inl e, s')"
  shows "download_raises env c fd s0 e \<or> extraction_raises env c ex fd fe s0 e"
proof (cases rule: try_body_cases[of env c fd s0 ex fe])
  case (download_failed e1 s1)
  from general_pipeline_raises[OF lk download_failed(2)] gp have e: "e1 = e" by simp
  from download_failed(1) e have "needs_download env c fd s0"
    and "\<exists>part. transport env (fs s0) (url c) = FetchFailed e part"
    by (simp_all add: download_stage_fails_iff)
  then have "download_raises env c fd s0 e" by (auto simp: download_raises_def)
  then show ?thesis by (rule disjI1)
next
  case (extract_failed d s1 e1 c1 s2)
  from general_pipeline_raises[OF lk extract_failed(3)] gp have e: "e1 = e" by simp
  from extract_failed(2) e have "needs_extract env c ex d fe s1"
    and "\<exists>part. unpack env (fs (prepare_destination (local_path c @ ''-extracted'') s1)) (local_path c)
                 = UnpackFailed e part"
    by (simp_all add: extract_stage_fails_iff)
  with extract_failed(1) have "extraction_raises env c ex fd fe s0 e"
    by (auto simp: extraction_raises_def)
  then show ?thesis by (rule disjI2)
next
  case (succeeded d s1 x c1 s2)
  from general_pipeline_returns[OF lk succeeded(3)] gp show ?thesis by simp
qed

lemma next_resolution_downloads:
  assumes "find (\<lambda>r. url r = u) (cache s) = Some c"
      and "\<not> path_exists (fs s) (local_path c)"
  shows "downloads (snd (general_pipeline env u ex fd fe s)) = Suc (downloads s)"
  using general_pipeline_downloads[OF lookup_or_create_found[OF assms(1)], of env ex fd fe] assms(2)
  by (simp add: needs_download_def)

section \<open>Rows and the files they name\<close>

text \<open>
  As C4 states it, the invariant fails: after \<open>h:a.zip\<close> has been resolved and
  extracted, every row names files that are on disk; a forced download that is
  interrupted then removes the artifact and the extraction directory and raises,
  and the row stays in the store, naming two paths that are gone.
\<close>

theorem row_left_without_files_counterexample:
  "records_on_disk (snd (cached_path world ''h:a.zip'' True False False fresh))
   \<and> fst (cached_path interrupted ''h:a.zip'' True True False
              (snd (cached_path world ''h:a.zip'' True False False fresh)))
       = Inl KeyboardInterrupt
   \<and> contains ''h:a.zip''
        (snd (cached_path interrupted ''h:a.zip'' True True False
                (snd (cached_path world ''h:a.zip'' True False False fresh))))
   \<and> \<not> records_on_disk
          (snd (cached_path interrupted ''h:a.zip'' True True False
                  (snd (cached_path world ''h:a.zip'' True False False fresh))))"
  by (simp add: cached_path.simps pipeline_defs records_on_disk_def on_disk_def
                extraction_on_disk_def interrupted_def world_def fresh_def)

text \<open>
  C4 (amended). \<open>Cache.update\<close> is called only in a run of the pipeline that
  returns. When the pipeline returns and the extraction directory recorded for the
  identifier (if any) was on disk before the call, the row of the identifier names a
  \<open>local_path\<close> and an extraction path that are on disk. When the download
  fails, the artifact file and the recorded extraction directory are removed; when
  the extraction fails, the artifact file and the directory \<open>local_path\<close> with
  the suffix \<open>-extracted\<close> are removed. In both cases nothing is persisted:
  the store is as lookup or creation left it, so the row stays and names files that
  are not on disk, and the next resolution of the identifier, whatever its flags,
  calls the transport again. \<open>Minato.remove\<close> removes the artifact file, the
  recorded extraction directory and every row with the id of the record; when the
  record is not found it changes nothing.
\<close>

theorem rows_and_files:
  assumes lk: "lookup_or_create env u s = (Inr cached, s0)"
      and gp: "general_pipeline env u extract force_download force_extract s = (r, s')"
  shows "(\<forall>e. r = Inl e \<longrightarrow>
            cache s' = cache s0 \<and> updates s' = updates s
            \<and> by_url u s' = Inr cached \<and> \<not> path_exists (fs s') (local_path cached)
            \<and> ((download_raises env cached force_download s0 e
                  \<and> (\<forall>q. extraction_path cached = Some q \<longrightarrow> \<not> path_exists (fs s') q))
                \<or> (extraction_raises env cached extract force_download force_extract s0 e
                  \<and> \<not> path_exists (fs s') (local_path cached @ ''-extracted'')))
            \<and> (\<forall>env' extract' force_download' force_extract'.
                  downloads (snd (general_pipeline env' u extract' force_download' force_extract' s'))
                  = Suc (downloads s')))
       \<and> (\<forall>p. r = Inr p \<and> extraction_on_disk s cached \<longrightarrow>
            (\<exists>row. by_url u s' = Inr row \<and> on_disk s' row))
       \<and> (updates s' \<noteq> updates s \<longrightarrow> (\<exists>p. r = Inr p))
       \<and> (\<forall>id_or_url t t'. remove id_or_url t = (Inr (), t') \<longrightarrow>
            (\<exists>c. (case id_or_url of Inl i \<Rightarrow> by_id i t | Inr k \<Rightarrow> by_url k t) = Inr c
                 \<and> \<not> path_exists (fs t') (local_path c)
                 \<and> (\<forall>q. extraction_path c = Some q \<longrightarrow> \<not> path_exists (fs t') q)
                 \<and> list_all (\<lambda>x. cf_id x \<noteq> cf_id c) (cache t')))
       \<and> (\<forall>id_or_url t e t'. remove id_or_url t = (Inl e, t') \<longrightarrow> t' = t)"
proof (intro conjI allI impI)
  fix e assume r: "r = Inl e"
  with gp have gp': "general_pipeline env u extract force_download force_extract s = (Inl e, s')"
    by simp
  show c: "cache s' = cache s0" by (rule general_pipeline_failure(1)[OF lk gp'])
  show "updates s' = updates s" by (rule general_pipeline_failure(2)[OF lk gp'])
  show gone: "\<not> path_exists (fs s') (local_path cached)"
    by (rule general_pipeline_failure(3)[OF lk gp'])
  have f: "find (\<lambda>r. url r = u) (cache s') = Some cached"
    using lookup_or_create_props(3)[OF lk] c by simp
  then show "by_url u s' = Inr cached" by (simp add: by_url_def)
  have cause: "download_raises env cached force_download s0 e
               \<or> extraction_raises env cached extract force_download force_extract s0 e"
    by (rule general_pipeline_failure_cause[OF lk gp'])
  from pipeline_rollback[OF lk cause] gp'
  have d: "download_raises env cached force_download s0 e \<longrightarrow>
             (\<forall>q. extraction_path cached = Some q \<longrightarrow> \<not> path_exists (fs s') q)"
    and x: "extraction_raises env cached extract force_download force_extract s0 e \<longrightarrow>
             \<not> path_exists (fs s') (local_path cached @ ''-extracted'')"
    by simp_all
  from cause show "(download_raises env cached force_download s0 e
                  \<and> (\<forall>q. extraction_path cached = Some q \<longrightarrow> \<not> path_exists (fs s') q))
                \<or> (extraction_raises env cached extract force_download force_extract s0 e
                  \<and> \<not> path_exists (fs s') (local_path cached @ ''-extracted''))"
  proof
    assume a: "download_raises env cached force_download s0 e"
    with d show ?thesis by (intro disjI1 conjI) simp_all
  next
    assume a: "extraction_raises env cached extract force_download force_extract s0 e"
    with x show ?thesis by (intro disjI2 conjI) simp_all
  qed
  show "downloads (snd (general_pipeline env' u ex' fd' fe' s')) = Suc (downloads s')"
    for env' ex' fd' fe'
    by (rule next_resolution_downloads[OF f gone])
next
  fix p assume "r = Inr p \<and> extraction_on_disk s cached"
  with gp have gp': "general_pipeline env u extract force_download force_extract s = (Inr p, s')"
    and od: "extraction_on_disk s cached" by simp_all
  show "\<exists>row. by_url u s' = Inr row \<and> on_disk s' row"
    by (rule general_pipeline_result_exists(3)[OF lk gp' od])
next
  assume n: "updates s' \<noteq> updates s"
  show "\<exists>p. r = Inr p"
  proof (cases r)
    case (Inl e)
    with gp have "general_pipeline env u extract force_download force_extract s = (Inl e, s')"
      by simp
    from general_pipeline_failure(2)[OF lk this] n show ?thesis by simp
  next
    case (Inr p)
    then show ?thesis by blast
  qed
next
  fix id_or_url t t' assume "remove id_or_url t = (Inr (), t')"
  then show "\<exists>c. (case id_or_url of Inl i \<Rightarrow> by_id i t | Inr k \<Rightarrow> by_url k t) = Inr c
                 \<and> \<not> path_exists (fs t') (local_path c)
                 \<and> (\<forall>q. extraction_path c = Some q \<longrightarrow> \<not> path_exists (fs t') q)
                 \<and> list_all (\<lambda>x. cf_id x \<noteq> cf_id c) (cache t')"
    by (rule remove_removes)
next
  fix id_or_url t e t' assume "remove id_or_url t = (Inl e, t')"
  then show "t' = t" by (rule remove_not_found)
qed

lemma extracted_store_lookup:
  "lookup_or_create interrupted ''h:a.zip''
     (snd (general_pipeline world ''h:a.zip'' True False False fresh))
   = (Inr extracted_row, snd (general_pipeline world ''h:a.zip'' True False False fresh))"
  by (simp add: pipeline_defs extracted_row_def world_def fresh_def)

lemma extracted_store_by_url:
  "by_url ''h:a.zip'' (snd (general_pipeline world ''h:a.zip'' True False False fresh))
   = Inr extracted_row"
  by (simp add: pipeline_defs extracted_row_def world_def fresh_def)

lemma interrupted_again_result:
  "fst (general_pipeline interrupted ''h:a.zip'' True True False
          (snd (general_pipeline world ''h:a.zip'' True False False fresh)))
   = Inl KeyboardInterrupt"
  by (simp add: pipeline_defs interrupted_def world_def fresh_def)

lemma remove_extracted_result:
  "fst (remove (Inr ''h:a.zip'') (snd (general_pipeline world ''h:a.zip'' True False False fresh)))
   = Inr ()"
  by (simp add: remove_outcome extracted_store_by_url)

theorem rows_and_files_witness:
  "by_url ''h:a.zip''
     (snd (general_pipeline interrupted ''h:a.zip'' True True False
             (snd (general_pipeline world ''h:a.zip'' True False False fresh))))
     = Inr extracted_row
   \<and> \<not> path_exists
         (fs (snd (general_pipeline interrupted ''h:a.zip'' True True False
                     (snd (general_pipeline world ''h:a.zip'' True False False fresh)))))
         ''/c/h:a.zip''
   \<and> \<not> path_exists
         (fs (snd (general_pipeline interrupted ''h:a.zip'' True True False
                     (snd (general_pipeline world ''h:a.zip'' True False False fresh)))))
         ''/c/h:a.zip-extracted''
   \<and> downloads
        (snd (general_pipeline world ''h:a.zip'' True False False
                (snd (general_pipeline interrupted ''h:a.zip'' True True False
                        (snd (general_pipeline world ''h:a.zip'' True False False fresh))))))
       = Suc (downloads
                (snd (general_pipeline interrupted ''h:a.zip'' True True False
                        (snd (general_pipeline world ''h:a.zip'' True False False fresh)))))
   \<and> extraction_on_disk fresh text_row
   \<and> (\<exists>row. by_url ''h:r.txt'' (snd (general_pipeline world ''h:r.txt'' False False False fresh))
               = Inr row
            \<and> on_disk (snd (general_pipeline world ''h:r.txt'' False False False fresh)) row)
   \<and> \<not> path_exists
         (fs (snd (remove (Inr ''h:a.zip'')
                     (snd (general_pipeline world ''h:a.zip'' True False False fresh)))))
         ''/c/h:a.zip''
   \<and> \<not> path_exists
         (fs (snd (remove (Inr ''h:a.zip'')
                     (snd (general_pipeline world ''h:a.zip'' True False False fresh)))))
         ''/c/h:a.zip-extracted''"
proof -
  let ?S1 = "snd (general_pipeline world ''h:a.zip'' True False False fresh)"
  let ?S2 = "snd (general_pipeline interrupted ''h:a.zip'' True True False ?S1)"
  let ?T = "snd (general_pipeline world ''h:r.txt'' False False False fresh)"
  let ?R = "snd (remove (Inr ''h:a.zip'') ?S1)"
  have od: "extraction_on_disk fresh text_row"
    by (simp add: extraction_on_disk_def text_row_def)
  have row: "local_path extracted_row = ''/c/h:a.zip''"
    "extraction_path extracted_row = Some ''/c/h:a.zip-extracted''"
    by (simp_all add: extracted_row_def)
  note fail = rows_and_files[OF extracted_store_lookup surjective_pairing, of True True False]
  from fail interrupted_again_result
  have 1: "by_url ''h:a.zip'' ?S2 = Inr extracted_row"
    and 2: "\<not> path_exists (fs ?S2) ''/c/h:a.zip''"
    and 3: "\<not> path_exists (fs ?S2) ''/c/h:a.zip-extracted''"
    and 4: "downloads (snd (general_pipeline world ''h:a.zip'' True False False ?S2))
            = Suc (downloads ?S2)"
    by (auto simp: row)
  note ok = rows_and_files[OF world_text_lookup surjective_pairing, of False False False]
  from ok world_text_result od
  have 5: "\<exists>row. by_url ''h:r.txt'' ?T = Inr row \<and> on_disk ?T row"
    by simp
  have rm: "remove (Inr ''h:a.zip'') ?S1 = (Inr (), ?R)"
    using remove_extracted_result by (simp add: prod_eq_iff)
  from ok rm
  have "\<exists>c. by_url ''h:a.zip'' ?S1 = Inr c
            \<and> \<not> path_exists (fs ?R) (local_path c)
            \<and> (\<forall>q. extraction_path c = Some q \<longrightarrow> \<not> path_exists (fs ?R) q)
            \<and> list_all (\<lambda>x. cf_id x \<noteq> cf_id c) (cache ?R)"
    by (elim conjE allE[of _ "Inr ''h:a.zip''"] allE[of _ ?S1] allE[of _ ?R]) simp
  then have 6: "\<not> path_exists (fs ?R) ''/c/h:a.zip''"
    and 7: "\<not> path_exists (fs ?R) ''/c/h:a.zip-extracted''"
    by (auto simp: extracted_store_by_url row)
  from 1 2 3 4 od 5 6 7 show ?thesis by (intro conjI)
qed

lemma general_pipeline_local_exists:
  assumes lk: "lookup_or_create env u s = (Inr c, s0)"
      and ds: "download_stage env c fd s0 = (Inr d, s1)"
      and es: "extract_stage env c ex d fe s1 = (Inr x, c1, s2)"
  shows "path_exists (fs s2) (local_path c)"
proof -
  have l1: "path_exists (fs s1) (local_path c)"
  proof (cases d)
    case True
    then show ?thesis by (rule download_stage_ok(4)[OF ds])
  next
    case False
    with download_stage_ok(1)[OF ds] have "\<not> needs_download env c fd s0" by simp
    then have "path_exists (fs s0) (local_path c)" by (simp add: needs_download_def)
    then show ?thesis by (rule download_stage_ok(6)[OF ds])
  qed
  then show ?thesis by (rule extract_stage_ok(8)[OF es])
qed

lemma general_pipeline_again:
  assumes lk: "lookup_or_create env u s = (Inr c, s0)"
      and gp: "general_pipeline env u ex False False s = (Inr p, s')"
      and ne: "unexpired (env\<lparr>now := t\<rparr>) u s'"
  shows "general_pipeline (env\<lparr>now := t\<rparr>) u ex False False s' = (Inr p, s')"
proof -
  let ?env2 = "env\<lparr>now := t\<rparr>"
  from lk gp obtain d s1 x c1 s2 where
    ds: "download_stage env c False s0 = (Inr d, s1)"
    and es: "extract_stage env c ex d False s1 = (Inr x, c1, s2)"
    and s': "s' = (if d \<or> x then update env c1 s2 else s2)"
    and p: "p = (if (ex \<or> False) \<and> extraction_path c1 \<noteq> None then the (extraction_path c1) else local_path c1)"
    by (rule general_pipeline_success)
  have fs': "fs s' = fs s2" by (simp add: s' update_keeps)
  have l': "path_exists (fs s') (local_path c)"
    using general_pipeline_local_exists[OF lk ds es] fs' by simp
  have cs: "cache s2 = cache s0"
    using extract_stage_cache[of env c ex d False s1] es download_stage_ok(2)[OF ds] by simp
  have f: "find (\<lambda>r. url r = u) (cache s2) = Some c"
    using lookup_or_create_props(3)[OF lk] cs by simp
  obtain row where row: "find (\<lambda>r. url r = u) (cache s') = Some row"
    and lr: "local_path row = local_path c" and xr: "extraction_path row = extraction_path c1"
  proof (cases "d \<or> x")
    case True
    then have s'': "s' = update env c1 s2" using s' by simp
    have "by_url u s' = Inr (c\<lparr>local_path := local_path c1,
            extraction_path := extraction_path c1, updated_at := now env\<rparr>)"
      unfolding s'' by (rule by_url_update[OF f extract_stage_ok(4)[OF es]])
    then have "find (\<lambda>r. url r = u) (cache s') = Some (c\<lparr>local_path := local_path c1,
            extraction_path := extraction_path c1, updated_at := now env\<rparr>)"
      by (simp add: by_url_def split: option.splits)
    with that extract_stage_ok(2)[OF es] show ?thesis by simp
  next
    case False
    then have s'': "s' = s2" and nx: "\<not> x" using s' by simp_all
    from extract_stage_ok(7)[OF es nx] have "c1 = c" by simp
    with that f s'' show ?thesis by simp
  qed
  have lk2: "lookup_or_create ?env2 u s' = (Inr row, s')" by (rule lookup_or_create_found[OF row])
  from ne row have "\<not> is_expired ?env2 row" by (simp add: unexpired_def by_url_def)
  with l' lr have nd: "\<not> needs_download ?env2 row False s'" by (simp add: needs_download_def)
  then have ds2: "download_stage ?env2 row False s' = (Inr False, s')"
    by (simp add: download_stage_def)
  have nx2: "\<not> needs_extract ?env2 row ex False False s'"
  proof
    assume n: "needs_extract ?env2 row ex False False s'"
    then have ex: ex and none: "extraction_path c1 = None"
      and ar: "is_archive_file env (fs s') (local_path c)"
      by (simp_all add: needs_extract_def xr lr)
    have nx: "\<not> x" using extract_stage_ok(5)[OF es] none by auto
    from extract_stage_ok(7)[OF es nx] have c1: "c1 = c" and s2: "s2 = s1" by simp_all
    from extract_stage_ok(1)[OF es] nx have "\<not> needs_extract env c ex d False s1" by simp
    with ex none c1 have "\<not> is_archive_file env (fs s1) (local_path c)"
      by (simp add: needs_extract_def)
    with ar fs' s2 show False by simp
  qed
  have es2: "extract_stage ?env2 row ex False False s' = (Inr False, row, s')"
    by (rule extract_stage_skipped[OF nx2])
  from general_pipeline_returns[OF lk2 try_body_succeeds[OF ds2 es2]]
  have "general_pipeline ?env2 u ex False False s' =
          (Inr (if ex \<and> extraction_path row \<noteq> None then the (extraction_path row) else local_path row), s')"
    by (cases "extraction_path row") simp_all
  moreover have "local_path row = local_path c1" using lr extract_stage_ok(2)[OF es] by simp
  ultimately show ?thesis using p xr by (cases "extraction_path c1"; cases ex; simp)
qed

lemma cached_path_remote:
  assumes "CHR ''!'' \<notin> set u" and "\<not> is_local env u"
  shows "cached_path env u ex fd fe s = general_pipeline env u ex fd fe s"
  using assms by (subst cached_path.simps) simp

lemma cached_path_nested_success:
  assumes m: "CHR ''!'' \<in> set u"
      and cp: "cached_path env u ex fd fe s = (Inr p, s')"
  obtains d q where "cached_path env (fst (rsplit_bang u)) True fd fe s = (Inr d, s')"
      and "is_dir (fs s') d" and "extract_path env (snd (rsplit_bang u)) = Inr q"
      and "p = joinpath d q"
proof -
  obtain r s1 where rec: "cached_path env (fst (rsplit_bang u)) True fd fe s = (r, s1)"
    by (cases "cached_path env (fst (rsplit_bang u)) True fd fe s")
  from cp rec obtain d where r: "r = Inr d"
    by (cases r) (simp_all add: cached_path_nested[OF m])
  from cp rec r have dir: "is_dir (fs s1) d"
    by (auto simp: cached_path_nested[OF m] split: if_splits)
  from cp rec r dir obtain q where q: "extract_path env (snd (rsplit_bang u)) = Inr q"
    by (cases "extract_path env (snd (rsplit_bang u))") (simp_all add: cached_path_nested[OF m])
  from cp rec r dir q have "p = joinpath d q" and "s' = s1"
    by (simp_all add: cached_path_nested[OF m])
  with rec r dir q that show thesis by simp
qed

lemma cached_path_again:
  "fd = False \<Longrightarrow> fe = False \<Longrightarrow> cached_path env u ex fd fe s = (Inr p, s')
   \<Longrightarrow> \<not> is_local env (root_ref u)
   \<Longrightarrow> unexpired (env\<lparr>now := t\<rparr>) (root_ref u) s'
   \<Longrightarrow> cached_path (env\<lparr>now := t\<rparr>) u ex fd fe s' = (Inr p, s')"
proof (induction env u ex fd fe s arbitrary: p s' rule: cached_path.induct)
  case (1 env u ex fd fe s)
  let ?env2 = "env\<lparr>now := t\<rparr>"
  show ?case
  proof (cases "CHR ''!'' \<in> set u")
    case True
    from cached_path_nested_success[OF True "1.prems"(3)] obtain d q where
      rec: "cached_path env (fst (rsplit_bang u)) True fd fe s = (Inr d, s')"
      and dir: "is_dir (fs s') d" and q: "extract_path env (snd (rsplit_bang u)) = Inr q"
      and p: "p = joinpath d q" by blast
    have rr: "root_ref u = root_ref (fst (rsplit_bang u))"
      using True by (subst root_ref.simps) simp
    from "1.IH"[OF True "1.prems"(1,2) rec] "1.prems"(4,5)
    have "cached_path ?env2 (fst (rsplit_bang u)) True fd fe s' = (Inr d, s')"
      by (simp add: rr)
    with dir q p show ?thesis by (simp add: cached_path_nested[OF True])
  next
    case False
    then have rr: "root_ref u = u" by (subst root_ref.simps) simp
    from "1.prems"(4) rr have nl: "\<not> is_local env u" by simp
    from "1.prems"(5) rr have ne: "unexpired ?env2 u s'" by simp
    from "1.prems"(3) cached_path_remote[OF False nl] "1.prems"(1,2)
    have gp: "general_pipeline env u ex False False s = (Inr p, s')" by simp
    obtain c s0 where lk: "lookup_or_create env u s = (Inr c, s0)"
      using lookup_or_create_ok by blast
    from general_pipeline_again[OF lk gp ne]
    have g2: "general_pipeline ?env2 u ex False False s' = (Inr p, s')" .
    from nl have nl2: "\<not> is_local ?env2 u" by simp
    from cached_path_remote[OF False nl2] g2 "1.prems"(1,2) show ?thesis by simp
  qed
qed

lemma cached_path_downloads_le:
  "downloads (snd (cached_path env u ex fd fe s)) \<le> Suc (downloads s)"
proof (induction env u ex fd fe s rule: cached_path.induct)
  case (1 env u ex fd fe s)
  show ?case
  proof (cases "CHR ''!'' \<in> set u")
    case True
    have "snd (cached_path env u ex fd fe s) = snd (cached_path env (fst (rsplit_bang u)) True fd fe s)"
      by (simp add: cached_path_nested[OF True] split: prod.splits sum.splits)
    with "1.IH"[OF True] show ?thesis by simp
  next
    case False
    have g: "downloads (snd (general_pipeline env k ex fd fe s)) \<le> Suc (downloads s)" for k
    proof -
      obtain c s0 where lk: "lookup_or_create env k s = (Inr c, s0)"
        using lookup_or_create_ok by blast
      from general_pipeline_downloads[OF lk, of ex fd fe] show ?thesis by simp
    qed
    show ?thesis using False g
      by (subst cached_path.simps) (auto split: sum.splits)
  qed
qed

lemma cached_path_first_download:
  "cached_path env u ex fd fe s = (Inr p, s')
   \<Longrightarrow> \<not> is_local env (root_ref u)
   \<Longrightarrow> lookup_or_create env (root_ref u) s = (Inr c, s0)
   \<Longrightarrow> \<not> path_exists (fs s) (local_path c)
   \<Longrightarrow> downloads s' = Suc (downloads s)"
proof (induction env u ex fd fe s arbitrary: p rule: cached_path.induct)
  case (1 env u ex fd fe s)
  show ?case
  proof (cases "CHR ''!'' \<in> set u")
    case True
    from cached_path_nested_success[OF True "1.prems"(1)] obtain d q where
      rec: "cached_path env (fst (rsplit_bang u)) True fd fe s = (Inr d, s')" by blast
    have rr: "root_ref u = root_ref (fst (rsplit_bang u))"
      using True by (subst root_ref.simps) simp
    from "1.IH"[OF True rec] "1.prems"(2,3,4) show ?thesis by (simp add: rr)
  next
    case False
    then have rr: "root_ref u = u" by (subst root_ref.simps) simp
    from "1.prems"(2) rr have nl: "\<not> is_local env u" by simp
    from "1.prems"(3) rr have lk: "lookup_or_create env u s = (Inr c, s0)" by simp
    have nd: "needs_download env c fd s0"
      using "1.prems"(4) lookup_or_create_props(1)[OF lk] by (simp add: needs_download_def)
    from general_pipeline_downloads[OF lk, of ex fd fe] nd
         "1.prems"(1) cached_path_remote[OF False nl, of ex fd fe s]
    show ?thesis by simp
  qed
qed

section \<open>Resolving twice\<close>

text \<open>
  C8. A remote reference is resolved with no force flags and \<open>cached_path\<close>
  returns; it is resolved again, later, while the row of the URL is not expired.
  The second resolution returns the same path and leaves the state, and with it the
  trace of transport and extractor calls, as it was: zero additional downloads. The
  first resolution made at most one download, and exactly one when the artifact of
  the URL was not on disk before.
\<close>

theorem resolve_twice:
  assumes "cached_path env u extract False False s = (Inr p, s1)"
      and "\<not> is_local env (root_ref u)"
      and "unexpired (env\<lparr>now := t\<rparr>) (root_ref u) s1"
  shows "cached_path (env\<lparr>now := t\<rparr>) u extract False False s1 = (Inr p, s1)
       \<and> downloads (snd (cached_path (env\<lparr>now := t\<rparr>) u extract False False s1)) = downloads s1
       \<and> downloads s1 \<le> Suc (downloads s)
       \<and> ((\<exists>cached s0. lookup_or_create env (root_ref u) s = (Inr cached, s0)
                       \<and> \<not> path_exists (fs s) (local_path cached))
            \<longrightarrow> downloads s1 = Suc (downloads s))"
proof (intro conjI impI)
  show again: "cached_path (env\<lparr>now := t\<rparr>) u extract False False s1 = (Inr p, s1)"
    using assms by (intro cached_path_again) simp_all
  then show "downloads (snd (cached_path (env\<lparr>now := t\<rparr>) u extract False False s1)) = downloads s1"
    by simp
  show "downloads s1 \<le> Suc (downloads s)"
    using cached_path_downloads_le[of env u "extract" False False s] assms(1) by simp
  assume "\<exists>cached s0. lookup_or_create env (root_ref u) s = (Inr cached, s0)
                       \<and> \<not> path_exists (fs s) (local_path cached)"
  then obtain cached s0 where "lookup_or_create env (root_ref u) s = (Inr cached, s0)"
    and "\<not> path_exists (fs s) (local_path cached)" by blast
  with assms(1,2) show "downloads s1 = Suc (downloads s)"
    by (rule cached_path_first_download)
qed

lemma weekly_zip_extracted:
  "fst (cached_path weekly ''h:a.zip'' True False False fresh) = Inr ''/c/h:a.zip-extracted''"
  by (simp add: cached_path.simps pipeline_defs weekly_def world_def fresh_def)

lemma weekly_zip_unexpired:
  "unexpired (weekly\<lparr>now := 3\<rparr>) ''h:a.zip''
     (snd (cached_path weekly ''h:a.zip'' True False False fresh))"
  by (simp add: cached_path.simps pipeline_defs unexpired_def weekly_def world_def fresh_def)

lemma weekly_zip_lookup:
  "lookup_or_create weekly ''h:a.zip'' fresh
     = (Inr first_row, fresh\<lparr>cache := [first_row], next_id := 2\<rparr>)"
  by (simp add: lookup_or_create_def contains_def add_def fresh_def first_row_def
                weekly_def world_def Let_def)

theorem resolve_twice_witness:
  "\<not> is_local weekly (root_ref ''h:a.zip'')
   \<and> unexpired (weekly\<lparr>now := 3\<rparr>) (root_ref ''h:a.zip'')
        (snd (cached_path weekly ''h:a.zip'' True False False fresh))
   \<and> cached_path (weekly\<lparr>now := 3\<rparr>) ''h:a.zip'' True False False
        (snd (cached_path weekly ''h:a.zip'' True False False fresh))
      = (Inr ''/c/h:a.zip-extracted'', snd (cached_path weekly ''h:a.zip'' True False False fresh))
   \<and> downloads (snd (cached_path weekly ''h:a.zip'' True False False fresh)) = 1"
proof -
  have rr: "root_ref ''h:a.zip'' = ''h:a.zip''" by (subst root_ref.simps) simp
  have 1: "cached_path weekly ''h:a.zip'' True False False fresh
           = (Inr ''/c/h:a.zip-extracted'', snd (cached_path weekly ''h:a.zip'' True False False fresh))"
    using weekly_zip_extracted by (simp add: prod_eq_iff)
  have 2: "\<not> is_local weekly (root_ref ''h:a.zip'')"
    by (simp add: rr weekly_def world_def)
  have 3: "unexpired (weekly\<lparr>now := 3\<rparr>) (root_ref ''h:a.zip'')
             (snd (cached_path weekly ''h:a.zip'' True False False fresh))"
    using weekly_zip_unexpired by (simp add: rr)
  have 4: "\<exists>cached s0. lookup_or_create weekly (root_ref ''h:a.zip'') fresh = (Inr cached, s0)
                       \<and> \<not> path_exists (fs fresh) (local_path cached)"
    using weekly_zip_lookup by (simp add: rr path_exists_def fresh_def)
  have z: "downloads fresh = 0" by (simp add: downloads_def fresh_def)
  from resolve_twice[OF 1 2 3] 4 z 2 3 show ?thesis by simp
qed

end
